theory Spec2Isabelle
  imports Complex_Main "HOL-Library.AList" "HOL-Library.Multiset"
begin

section \<open>Python values and exceptions\<close>

text \<open>
  The repository is Python.  Every exception the modelled code can raise is a value of
  \<open>py_error\<close>; a function that can raise returns \<open>py_error + 'a\<close> with
  \<open>Inl\<close> for the exception.  \<open>FileNotFoundError\<close>, \<open>ValueError\<close> and
  \<open>KeyError\<close> carry the message (the key) they are raised with.  \<open>Unmodelled\<close>
  stands for a behaviour of Python that the model leaves out; nothing is stated about it.
  Python floats are idealised as real numbers throughout.
\<close>

datatype py_error =
    FileNotFoundError string
  | ValueError string
  | KeyError string
  | TypeError
  | AttributeError
  | IndexError
  | ZeroDivisionError
  | UnboundLocalError
  | Unmodelled

definition bind :: "py_error + 'a \<Rightarrow> ('a \<Rightarrow> py_error + 'b) \<Rightarrow> py_error + 'b" where
  "bind m f = (case m of Inl e \<Rightarrow> Inl e | Inr x \<Rightarrow> f x)"

section \<open>Cells and the mesh (src/Simulation/solver.py)\<close>

text \<open>
  Modelled from the spec: the classes \<open>Vertex\<close>, \<open>Line\<close> and \<open>Triangle\<close> are declared in
  \<open>src/Simulation/cells.py\<close>, which is not among the sources; the driver tells them
  apart with \<open>isinstance\<close> and reads and writes the attributes \<open>index\<close>,
  \<open>oil_amount\<close> and \<open>oil_change\<close>.  A cell is a record of these and of the attributes
  \<open>area\<close> and \<open>neighbors\<close> of the specification's data model (section 3); every cell
  has an \<open>oil_amount\<close>, as the driver writes it out for every cell.  The mesh is the
  list \<open>mesh.cells\<close>; a reference to a cell is its position in that list, so
  \<open>neighbors\<close> holds positions.
\<close>

datatype cell_kind = Vertex | Line | Triangle

record cell =
  kind :: cell_kind
  index :: int
  area :: real
  neighbors :: "nat list"
  oil_amount :: real
  oil_change :: real

text \<open>\<open>not isinstance(cell, cls.Vertex) and not isinstance(cell, cls.Line)\<close>\<close>

definition transport_capable :: "cell \<Rightarrow> bool" where
  "transport_capable c \<longleftrightarrow> kind c \<noteq> Vertex \<and> kind c \<noteq> Line"

text \<open>
  Calls that leave the driver (methods of \<open>Mesh\<close>, the plotting functions, file
  access, \<open>make_video\<close>) and the commit of one cell are recorded, in program order, in
  a trace.
\<close>

datatype event =
    EvCalculate nat
  | EvReadRestart string
  | EvInitialOil
  | EvCellsWithinArea
  | EvPlot bool real
  | EvCalcChange nat
  | EvCommit nat
  | EvWriteRestart
  | EvMakeVideo

record sim =
  cells :: "cell list"
  trace :: "event list"

text \<open>
  The methods of \<open>Mesh\<close> (\<open>src/Simulation/mesh.py\<close>, not among the sources) are
  parameters of the driver.  Each takes the cell list as it stands at the call and
  returns the list after the call; \<open>cells_within_area\<close> returns positions.  \<open>Mesh\<close>
  is the constructor, with the cell factory it is given.
\<close>

record mesh_ops =
  Mesh :: "string \<Rightarrow> py_error + cell list"
  calculate :: "cell list \<Rightarrow> nat \<Rightarrow> cell list"
  initial_oil_distribution :: "cell list \<Rightarrow> real list \<Rightarrow> cell list"
  cells_within_area :: "cell list \<Rightarrow> real \<times> real \<Rightarrow> real \<times> real \<Rightarrow> nat list"
  calculate_change :: "cell list \<Rightarrow> nat \<Rightarrow> real \<Rightarrow> cell list"

text \<open>
  \<open>for cell in cells: if not isinstance(cell, cls.Vertex) and not isinstance(cell, cls.Line): body\<close>,
  visiting the positions \<open>order\<close>; the driver visits \<open>[0..<length cells]\<close>.
\<close>

definition for_transport ::
  "(nat \<Rightarrow> 'a sim_scheme \<Rightarrow> 'a sim_scheme) \<Rightarrow> nat list \<Rightarrow> 'a sim_scheme \<Rightarrow> 'a sim_scheme" where
  "for_transport body order s =
     fold (\<lambda>i s. if i < length (cells s) \<and> transport_capable (cells s ! i) then body i s else s) order s"

text \<open>\<open>mesh.calculate_change(cell, dt)\<close> (line 124)\<close>

definition call_calculate_change ::
  "mesh_ops \<Rightarrow> real \<Rightarrow> nat \<Rightarrow> 'a sim_scheme \<Rightarrow> 'a sim_scheme" where
  "call_calculate_change ops dt i s =
     s\<lparr>cells := calculate_change ops (cells s) i dt, trace := trace s @ [EvCalcChange i]\<rparr>"

text \<open>\<open>cell.oil_amount += cell.oil_change; cell.oil_change = 0\<close> (lines 128-129)\<close>

definition commit_cell :: "cell \<Rightarrow> cell" where
  "commit_cell c = c\<lparr>oil_amount := oil_amount c + oil_change c, oil_change := 0\<rparr>"

definition commit :: "nat \<Rightarrow> 'a sim_scheme \<Rightarrow> 'a sim_scheme" where
  "commit i s = s\<lparr>cells := (cells s)[i := commit_cell (cells s ! i)], trace := trace s @ [EvCommit i]\<rparr>"

text \<open>The two loops of one step (lines 122-129).\<close>

definition compute_phase :: "mesh_ops \<Rightarrow> real \<Rightarrow> 'a sim_scheme \<Rightarrow> 'a sim_scheme" where
  "compute_phase ops dt s = for_transport (call_calculate_change ops dt) [0..<length (cells s)] s"

definition commit_phase :: "'a sim_scheme \<Rightarrow> 'a sim_scheme" where
  "commit_phase s = for_transport commit [0..<length (cells s)] s"

definition update_cells :: "mesh_ops \<Rightarrow> real \<Rightarrow> 'a sim_scheme \<Rightarrow> 'a sim_scheme" where
  "update_cells ops dt s = commit_phase (compute_phase ops dt s)"


subsection \<open>Python built-ins the driver uses\<close>

text \<open>
  \<open>round(x, n)\<close> on a float rounds to the nearest multiple of \<open>10 ** -n\<close>, a tie going
  to the even multiple; here on real numbers.
\<close>

definition round_half_even :: "real \<Rightarrow> int" where
  "round_half_even y =
     (let f = \<lfloor>y\<rfloor>; d = y - of_int f
      in if d < 1 / 2 then f else if 1 / 2 < d then f + 1 else if even f then f else f + 1)"

definition py_round :: "real \<Rightarrow> nat \<Rightarrow> real" where
  "py_round x n = of_int (round_half_even (x * 10 ^ n)) / 10 ^ n"

text \<open>\<open>line.split(";")\<close>: the pieces between the separators, at least one piece.\<close>

fun split_on :: "char \<Rightarrow> string \<Rightarrow> string list" where
  "split_on sep [] = [[]]"
| "split_on sep (x # xs) =
     (if x = sep then [] # split_on sep xs
      else (case split_on sep xs of [] \<Rightarrow> [[x]] | p # ps \<Rightarrow> (x # p) # ps))"

text \<open>
  \<open>int(s)\<close> on a string: white space around the literal is dropped, then an optional
  sign and decimal digits, single underscores allowed between digits.  \<open>None\<close> is
  Python's \<open>ValueError\<close>.  A \<open>char\<close> is a code point below 256; of these \<open>int\<close>
  drops tab, line feed, vertical tab, form feed, carriage return, space, U+0085 and
  U+00A0 (and not U+001C to U+001F, which \<open>str.strip\<close> would drop).  Code points from
  256 on, white space and digits among them, are not modelled.
\<close>

definition is_space :: "char \<Rightarrow> bool" where
  "is_space c \<longleftrightarrow> (of_char c :: nat) \<in> {9, 10, 11, 12, 13, 32, 133, 160}"

definition is_digit :: "char \<Rightarrow> bool" where
  "is_digit c \<longleftrightarrow> 48 \<le> (of_char c :: nat) \<and> (of_char c :: nat) \<le> 57"

definition strip :: "string \<Rightarrow> string" where
  "strip s = rev (dropWhile is_space (rev (dropWhile is_space s)))"

fun underscores_ok :: "string \<Rightarrow> bool" where
  "underscores_ok [] = False"
| "underscores_ok [c] = is_digit c"
| "underscores_ok (c # d # cs) =
     (if is_digit c then underscores_ok (d # cs)
      else c = CHR ''_'' \<and> is_digit d \<and> underscores_ok (d # cs))"

definition digits_value :: "string \<Rightarrow> nat" where
  "digits_value ds = foldl (\<lambda>n c. 10 * n + (of_char c - 48)) 0 (filter is_digit ds)"

definition py_nat :: "string \<Rightarrow> nat option" where
  "py_nat ds = (case ds of [] \<Rightarrow> None
     | c # cs \<Rightarrow> if is_digit c \<and> underscores_ok ds then Some (digits_value ds) else None)"

definition py_int :: "string \<Rightarrow> int option" where
  "py_int s = (case strip s of
       [] \<Rightarrow> None
     | c # cs \<Rightarrow>
         if c = CHR ''-'' then map_option (\<lambda>n. - int n) (py_nat cs)
         else if c = CHR ''+'' then map_option int (py_nat cs)
         else map_option int (py_nat (c # cs)))"

text \<open>\<open>str(i)\<close> of an integer, as an f-string writes it.\<close>

function show_nat :: "nat \<Rightarrow> string" where
  "show_nat n =
     (if n < 10 then [''0123456789'' ! n] else show_nat (n div 10) @ [''0123456789'' ! (n mod 10)])"
  by pat_completeness auto
termination
  by (relation "measure id") auto

declare show_nat.simps [simp del]

definition show_int :: "int \<Rightarrow> string" where
  "show_int i = (if i < 0 then CHR ''-'' # show_nat (nat (- i)) else show_nat (nat i))"

text \<open>
  What the driver takes from its environment: the lines of a text file
  (\<open>open(path).readlines()\<close>, each with its line end), \<open>float(s)\<close> on a string
  (\<open>None\<close> is \<open>ValueError\<close>) and the text an f-string gives a float.
\<close>

record py_env =
  readlines :: "string \<Rightarrow> py_error + string list"
  float_of_str :: "string \<Rightarrow> real option"
  str_of_float :: "real \<Rightarrow> string"

text \<open>\<open>xs[i]\<close> for a Python integer: a negative index counts from the end.\<close>

definition list_index :: "nat \<Rightarrow> int \<Rightarrow> nat option" where
  "list_index n i =
     (let j = (if i < 0 then int n + i else i)
      in if 0 \<le> j \<and> j < int n then Some (nat j) else None)"


subsection \<open>The driver \<open>find_and_plot\<close>, stage by stage\<close>

text \<open>
  The arguments of \<open>find_and_plot\<close>.  \<open>cell_factory\<close> is part of the \<open>Mesh\<close>
  constructor; \<open>toml_file\<close> only selects the names of the result folder and files, which
  are not modelled, nor is the creation of the folders (lines 68-80).  \<open>restartFile\<close> is
  \<open>None\<close> for Python's \<open>None\<close>.
\<close>

record args =
  mesh_path :: string
  start_time :: real
  end_time :: real
  intervals :: int
  write_frequency :: int
  start_point :: "real list"
  x_area :: "real \<times> real"
  y_area :: "real \<times> real"
  restartFile :: "string option"
  fast :: int

text \<open>\<open>mesh.calculate(cell)\<close> (line 89)\<close>

definition call_calculate :: "mesh_ops \<Rightarrow> nat \<Rightarrow> 'a sim_scheme \<Rightarrow> 'a sim_scheme" where
  "call_calculate ops i s =
     s\<lparr>cells := calculate ops (cells s) i, trace := trace s @ [EvCalculate i]\<rparr>"

text \<open>
  One line of the restart file after the first (lines 97-98):
  \<open>index, oil_amount = line.split(";")\<close> needs exactly two pieces; in
  \<open>cells[int(index)].oil_amount = float(oil_amount)\<close> the right-hand side is evaluated
  first.  The messages of the errors that built-ins raise are abbreviated.
\<close>

definition restore_line :: "py_env \<Rightarrow> cell list \<Rightarrow> string \<Rightarrow> py_error + cell list" where
  "restore_line env cs line =
     (case split_on CHR '';'' line of
        [index_s, amount_s] \<Rightarrow>
          (case float_of_str env amount_s of
             None \<Rightarrow> Inl (ValueError ''could not convert string to float'')
           | Some v \<Rightarrow>
               (case py_int index_s of
                  None \<Rightarrow> Inl (ValueError ''invalid literal for int()'')
                | Some i \<Rightarrow>
                    (case list_index (length cs) i of
                       None \<Rightarrow> Inl IndexError
                     | Some j \<Rightarrow> Inr (cs[j := (cs ! j)\<lparr>oil_amount := v\<rparr>]))))
      | _ \<Rightarrow> Inl (ValueError ''unpack''))"

fun restore_lines :: "py_env \<Rightarrow> string list \<Rightarrow> cell list \<Rightarrow> py_error + cell list" where
  "restore_lines env [] cs = Inr cs"
| "restore_lines env (line # rest) cs = bind (restore_line env cs line) (restore_lines env rest)"

text \<open>Lines 92-100: restore from the restart file, or seed the initial distribution.\<close>

definition seed_or_restore ::
  "mesh_ops \<Rightarrow> py_env \<Rightarrow> args \<Rightarrow> sim \<Rightarrow> py_error + (real \<times> sim)" where
  "seed_or_restore ops env a s =
     (case restartFile a of
        Some (c # path) \<Rightarrow>
          bind (readlines env (c # path)) (\<lambda>lines.
            (case lines of
               [] \<Rightarrow> Inl IndexError
             | first # rest \<Rightarrow>
                 (case float_of_str env first of
                    None \<Rightarrow> Inl (ValueError ''could not convert string to float'')
                  | Some t \<Rightarrow>
                      bind (restore_lines env rest (cells s)) (\<lambda>cs.
                        Inr (t, s\<lparr>cells := cs, trace := trace s @ [EvReadRestart (c # path)]\<rparr>)))))
      | _ \<Rightarrow>
          Inr (start_time a,
               s\<lparr>cells := initial_oil_distribution ops (cells s) (start_point a),
                 trace := trace s @ [EvInitialOil]\<rparr>))"

text \<open>
  Lines 102-107: the start time the loop begins at, and \<open>dt\<close>.  Dividing by
  \<open>intervals = 0\<close> raises.
\<close>

definition time_step :: "real \<Rightarrow> real \<Rightarrow> int \<Rightarrow> py_error + (real \<times> real)" where
  "time_step t_start t_end n =
     (if t_start = t_end then
        (let t_start' = 0
         in if n = 0 then Inl ZeroDivisionError
            else Inr (t_start', py_round ((t_end - t_start') / of_int n) 6))
      else if n = 0 then Inl ZeroDivisionError
      else Inr (t_start, py_round ((t_end - t_start) / of_int n) 6))"

record loop_state = sim +
  current_time :: real
  oil_area_time :: "(real \<times> real) list"

text \<open>\<open>plot.plotting_mesh_cairo\<close> if \<open>fast == 1\<close>, else \<open>plot.plotting_mesh\<close>.\<close>

definition plot_call :: "int \<Rightarrow> 'a loop_state_scheme \<Rightarrow> 'a loop_state_scheme" where
  "plot_call fst_flag st = st\<lparr>trace := trace st @ [EvPlot (fst_flag = 1) (current_time st)]\<rparr>"

text \<open>Lines 133-135: the sum of \<open>oil_amount\<close> over \<open>cells_in_area\<close>.\<close>

definition oil_in_area :: "nat list \<Rightarrow> cell list \<Rightarrow> real" where
  "oil_in_area cia cs = foldl (\<lambda>acc i. acc + oil_amount (cs ! i)) 0 cia"

text \<open>
  The body of the step loop (lines 114-136) for the loop variable \<open>steps\<close>.  The
  dictionary \<open>oil_area_time\<close> is an association list in insertion order; assigning to a
  key it holds replaces the value in place, as a Python dict does.
\<close>

definition step_body ::
  "mesh_ops \<Rightarrow> int \<Rightarrow> int \<Rightarrow> real \<Rightarrow> nat list \<Rightarrow> nat \<Rightarrow> loop_state \<Rightarrow> py_error + loop_state" where
  "step_body ops wfreq fst_flag dt cia steps st =
     (if wfreq = 0 then Inl ZeroDivisionError
      else
        (let st1 = (if int steps mod wfreq = 0 then plot_call fst_flag st else st);
             st2 = update_cells ops dt st1;
             t = py_round (current_time st2 + dt) 4
         in Inr (st2\<lparr>current_time := t,
                     oil_area_time := AList.update t (oil_in_area cia (cells st2)) (oil_area_time st2)\<rparr>)))"

fun step_loop ::
  "mesh_ops \<Rightarrow> int \<Rightarrow> int \<Rightarrow> real \<Rightarrow> nat list \<Rightarrow> nat list \<Rightarrow> loop_state \<Rightarrow> py_error + loop_state" where
  "step_loop ops wfreq fst_flag dt cia [] st = Inr st"
| "step_loop ops wfreq fst_flag dt cia (k # ks) st =
     bind (step_body ops wfreq fst_flag dt cia k st) (step_loop ops wfreq fst_flag dt cia ks)"

text \<open>Lines 152-155: the text written to the restart file, piece by piece.\<close>

definition restart_text :: "py_env \<Rightarrow> real \<Rightarrow> cell list \<Rightarrow> string list" where
  "restart_text env t_end cs =
     (str_of_float env t_end @ [CHR 0x0A]) #
     map (\<lambda>c. show_int (index c) @ '';'' @ str_of_float env (oil_amount c) @ [CHR 0x0A]) cs"

record outcome =
  returned :: "(real \<times> real) list"
  restart_written :: "string list"
  final_cells :: "cell list"
  events :: "event list"

text \<open>
  \<open>find_and_plot\<close> as a whole, in three stages.  Lines 82-107: load the mesh, compute the
  geometry, restore or seed, derive \<open>dt\<close>.
\<close>

definition prepare :: "mesh_ops \<Rightarrow> py_env \<Rightarrow> args \<Rightarrow> py_error + (sim \<times> real \<times> real)" where
  "prepare ops env a =
     bind (Mesh ops (mesh_path a)) (\<lambda>cells0.
       (let s0 = for_transport (call_calculate ops) [0..<length cells0] \<lparr>cells = cells0, trace = []\<rparr>
        in bind (seed_or_restore ops env a s0) (\<lambda>(t_start, s1).
             bind (time_step t_start (end_time a) (intervals a)) (\<lambda>(t_start', dt).
               Inr (s1, t_start', dt)))))"

text \<open>
  Lines 110-136: the area of interest, then the step loop over \<open>range(intervals)\<close>.
  \<open>set(mesh.cells_within_area(x_area, y_area))\<close> holds every cell once; the order in
  which a Python set is summed does not matter for real numbers.
\<close>

definition area_of_interest :: "mesh_ops \<Rightarrow> args \<Rightarrow> cell list \<Rightarrow> nat list" where
  "area_of_interest ops a cs = remdups (cells_within_area ops cs (x_area a) (y_area a))"

definition stepping :: "mesh_ops \<Rightarrow> args \<Rightarrow> sim \<times> real \<times> real \<Rightarrow> py_error + loop_state" where
  "stepping ops a p =
     (case p of (s1, t_start', dt) \<Rightarrow>
        (let cells_in_area = area_of_interest ops a (cells s1);
             st0 = \<lparr>cells = cells s1, trace = trace s1 @ [EvCellsWithinArea],
                    current_time = t_start', oil_area_time = []\<rparr>
         in step_loop ops (write_frequency a) (fast a) dt cells_in_area [0..<nat (intervals a)] st0))"

text \<open>
  Lines 138-160: the last plot, the restart file, the video.  The driver prints the loop
  variable \<open>steps\<close> after the last plot; it is unbound when the loop body never ran.
\<close>

definition finish :: "py_env \<Rightarrow> args \<Rightarrow> loop_state \<Rightarrow> py_error + outcome" where
  "finish env a st =
     (let st' = plot_call (fast a) st
      in if intervals a \<le> 0 then Inl UnboundLocalError
         else Inr \<lparr>returned = oil_area_time st',
                   restart_written = restart_text env (end_time a) (cells st'),
                   final_cells = cells st',
                   events = trace st' @ [EvWriteRestart] @
                     (if write_frequency a \<noteq> 0 then [EvMakeVideo] else [])\<rparr>)"

definition find_and_plot :: "mesh_ops \<Rightarrow> py_env \<Rightarrow> args \<Rightarrow> py_error + outcome" where
  "find_and_plot ops env a =
     bind (prepare ops env a) (\<lambda>p. bind (stepping ops a p) (finish env a))"

section \<open>Reading the configuration (config.py)\<close>

text \<open>
  A parsed TOML document: what \<open>toml.load\<close> returns.  Floats are real numbers; dates
  and times are not modelled.  A table keeps its keys in file order.
\<close>

datatype tval =
    TInt int
  | TFloat real
  | TBool bool
  | TStr string
  | TList "tval list"
  | TTable "(string \<times> tval) list"

text \<open>
  The file system as \<open>readConfig\<close> sees it: \<open>os.path.exists\<close> on a path, and
  \<open>open\<close> followed by \<open>toml.load\<close>, which gives the document or raises.
\<close>

record world =
  path_exists :: "string \<Rightarrow> bool"
  toml_load :: "string \<Rightarrow> py_error + (string \<times> tval) list"

text \<open>Python's truth value; \<open>None\<close> is what \<open>dict.get\<close> gives for an absent key.\<close>

fun truthy :: "tval option \<Rightarrow> bool" where
  "truthy None = False"
| "truthy (Some (TInt n)) = (n \<noteq> 0)"
| "truthy (Some (TFloat x)) = (x \<noteq> 0)"
| "truthy (Some (TBool b)) = b"
| "truthy (Some (TStr s)) = (s \<noteq> [])"
| "truthy (Some (TList vs)) = (vs \<noteq> [])"
| "truthy (Some (TTable kvs)) = (kvs \<noteq> [])"

text \<open>\<open>d[key]\<close>: \<open>KeyError\<close> on a table without the key, \<open>TypeError\<close> on any other value.\<close>

fun py_item :: "tval \<Rightarrow> string \<Rightarrow> py_error + tval" where
  "py_item (TTable kvs) key = (case map_of kvs key of None \<Rightarrow> Inl (KeyError key) | Some v \<Rightarrow> Inr v)"
| "py_item v key = Inl TypeError"

text \<open>\<open>d.get(key, default)\<close>: only a table has the method.\<close>

fun py_get :: "tval \<Rightarrow> string \<Rightarrow> tval option \<Rightarrow> py_error + tval option" where
  "py_get (TTable kvs) key dflt = Inr (case map_of kvs key of None \<Rightarrow> dflt | Some v \<Rightarrow> Some v)"
| "py_get v key dflt = Inl AttributeError"

text \<open>
  \<open>a <= b\<close>.  Numbers (\<open>bool\<close> included) compare by value, strings by code points;
  two arrays compare element by element in Python, which is left out
  (\<open>Unmodelled\<close>); every other pair raises \<open>TypeError\<close>.
\<close>

fun num_val :: "tval \<Rightarrow> real option" where
  "num_val (TInt n) = Some (of_int n)"
| "num_val (TFloat x) = Some x"
| "num_val (TBool b) = Some (if b then 1 else 0)"
| "num_val v = None"

fun str_le :: "string \<Rightarrow> string \<Rightarrow> bool" where
  "str_le [] t = True"
| "str_le (x # xs) [] = False"
| "str_le (x # xs) (y # ys) = (if x = y then str_le xs ys else (of_char x :: nat) < of_char y)"

definition py_le :: "tval \<Rightarrow> tval \<Rightarrow> py_error + bool" where
  "py_le a b =
     (case (num_val a, num_val b) of
        (Some x, Some y) \<Rightarrow> Inr (x \<le> y)
      | _ \<Rightarrow>
        (case (a, b) of
           (TStr s, TStr t) \<Rightarrow> Inr (str_le s t)
         | (TList xs, TList ys) \<Rightarrow> Inl Unmodelled
         | _ \<Rightarrow> Inl TypeError))"

text \<open>
  \<open>os.path.exists(filepath)\<close> on a value of the document: a string is a path; an
  integer would be taken for an open file descriptor, which is left out
  (\<open>Unmodelled\<close>); anything else raises \<open>TypeError\<close>.
\<close>

fun os_path_exists :: "world \<Rightarrow> tval \<Rightarrow> py_error + bool" where
  "os_path_exists w (TStr s) = Inr (path_exists w s)"
| "os_path_exists w (TInt n) = Inl Unmodelled"
| "os_path_exists w (TBool b) = Inl Unmodelled"
| "os_path_exists w v = Inl TypeError"

text \<open>
  \<open>{filepath}\<close> in the f-string of the mesh-file message.  Only \<open>None\<close>, a string or a
  false value reaches it.
\<close>

fun fmt_path :: "tval option \<Rightarrow> string" where
  "fmt_path None = ''None''"
| "fmt_path (Some (TStr s)) = s"
| "fmt_path (Some (TInt n)) = show_int n"
| "fmt_path (Some (TFloat x)) = ''0.0''"
| "fmt_path (Some (TBool b)) = (if b then ''True'' else ''False'')"
| "fmt_path (Some (TList vs)) = ''[]''"
| "fmt_path (Some (TTable kvs)) = ''{}''"

text \<open>
  Lines 22-41 of \<open>readConfig\<close>: the document and the values fetched from it.
  \<open>dict.get\<close> gives \<open>None\<close> for an absent key; \<open>t_start\<close> is fetched with the default 0.
\<close>

record fetched =
  config :: tval
  fish_area :: "tval option"
  start_point_given :: "tval option"
  filepath :: "tval option"
  steps :: "tval option"
  t_start_given :: "tval option"
  t_end_given :: "tval option"
  writeFrequency_given :: tval
  restartFile_given :: tval
  logName_given :: tval

definition fetch :: "world \<Rightarrow> string \<Rightarrow> py_error + fetched" where
  "fetch w name =
     (if \<not> path_exists w name
      then Inl (FileNotFoundError (''The config file '' @ name @ '' does not exist.''))
      else
        bind (toml_load w name) (\<lambda>doc.
        bind (py_item (TTable doc) ''geometry'') (\<lambda>geometry.
        bind (py_get geometry ''fish_area'' None) (\<lambda>v_fish_area.
        bind (py_get geometry ''initial_oil_area'' None) (\<lambda>v_start_point.
        bind (py_get geometry ''filepath'' None) (\<lambda>v_filepath.
        bind (py_item (TTable doc) ''settings'') (\<lambda>settings.
        bind (py_get settings ''nSteps'' None) (\<lambda>v_steps.
        bind (py_get settings ''t_start'' (Some (TInt 0))) (\<lambda>v_t_start.
        bind (py_get settings ''t_end'' None) (\<lambda>v_t_end.
        bind (py_item (TTable doc) ''IO'') (\<lambda>IO.
        bind (py_item IO ''writeFrequency'') (\<lambda>v_writeFrequency.
        bind (py_item IO ''restartFile'') (\<lambda>v_restartFile.
        bind (py_item IO ''logName'') (\<lambda>v_logName.
          Inr \<lparr>config = TTable doc, fish_area = v_fish_area, start_point_given = v_start_point,
               filepath = v_filepath, steps = v_steps, t_start_given = v_t_start, t_end_given = v_t_end,
               writeFrequency_given = v_writeFrequency, restartFile_given = v_restartFile,
               logName_given = v_logName\<rparr>))))))))))))))"

text \<open>The local variables \<open>readConfig\<close> assigns defaults to (lines 61-68).\<close>

record config_locals =
  writeFrequency :: tval
  t_start :: "tval option"
  logName :: tval

text \<open>
  The three conditions of lines 43-59 that can raise while they are evaluated:
  \<open>filepath and os.path.exists(filepath)\<close>, \<open>not steps or steps <= 0\<close> and
  \<open>t_end is None or t_end <= t_start\<close>.
\<close>

definition mesh_file_found :: "world \<Rightarrow> fetched \<Rightarrow> py_error + bool" where
  "mesh_file_found w f =
     (case filepath f of
        None \<Rightarrow> Inr False
      | Some p \<Rightarrow> if \<not> truthy (filepath f) then Inr False else os_path_exists w p)"

definition steps_not_positive :: "fetched \<Rightarrow> py_error + bool" where
  "steps_not_positive f =
     (case steps f of
        None \<Rightarrow> Inr True
      | Some n \<Rightarrow> if \<not> truthy (steps f) then Inr True else py_le n (TInt 0))"

definition end_not_after_start :: "fetched \<Rightarrow> py_error + bool" where
  "end_not_after_start f =
     (case t_end_given f of
        None \<Rightarrow> Inr True
      | Some e \<Rightarrow> (case t_start_given f of None \<Rightarrow> Inl TypeError | Some b \<Rightarrow> py_le e b))"

text \<open>
  Lines 43-70: the checks in their order, then the defaults, which go to the local
  variables only; the function returns \<open>config\<close>.  \<open>validate\<close> returns the final
  values of those locals as well.
\<close>

definition validate :: "world \<Rightarrow> fetched \<Rightarrow> py_error + (tval \<times> config_locals)" where
  "validate w f =
     bind (mesh_file_found w f) (\<lambda>found.
     if \<not> found
     then Inl (FileNotFoundError (''The mesh file '' @ fmt_path (filepath f) @ '' does not exist.''))
     else if \<not> truthy (fish_area f)
     then Inl (ValueError ''Missing fish_area in geometry section.'')
     else if \<not> truthy (start_point_given f)
     then Inl (ValueError ''Missing initial_oil_area in geometry section.'')
     else
     bind (steps_not_positive f) (\<lambda>bad_steps.
     if bad_steps
     then Inl (ValueError ''Missing nSteps in settings section.'')
     else if truthy (Some (restartFile_given f)) \<and> \<not> truthy (t_start_given f)
     then Inl (ValueError ''if restarFile given, must give t_start.'')
     else
     bind (end_not_after_start f) (\<lambda>bad_end.
     if bad_end
     then Inl (ValueError ''Missing t_end in or t_end <= t_start in settings section.'')
     else
       Inr (config f,
            \<lparr>writeFrequency =
               (if \<not> truthy (Some (writeFrequency_given f)) then TInt (- 1000)
                else writeFrequency_given f),
             t_start = (if \<not> truthy (Some (restartFile_given f)) then Some (TInt 0) else t_start_given f),
             logName =
               (if \<not> truthy (Some (logName_given f)) then TStr ''logfile.log''
                else logName_given f)\<rparr>))))"

definition readConfig_run :: "world \<Rightarrow> string \<Rightarrow> py_error + (tval \<times> config_locals)" where
  "readConfig_run w name = bind (fetch w name) (validate w)"

definition readConfig :: "world \<Rightarrow> string \<Rightarrow> py_error + tval" where
  "readConfig w name = bind (readConfig_run w name) (\<lambda>(config, locals). Inr config)"








section \<open>Notions the statements use\<close>

text \<open>The positions of the transport-capable cells, in mesh order.\<close>

definition transport_positions :: "cell list \<Rightarrow> nat list" where
  "transport_positions cs = filter (\<lambda>i. transport_capable (cs ! i)) [0..<length cs]"

text \<open>Every transport-capable cell has \<open>oil_change = 0\<close>.\<close>

definition changes_clear :: "cell list \<Rightarrow> bool" where
  "changes_clear cs \<longleftrightarrow> (\<forall>c \<in> set cs. transport_capable c \<longrightarrow> oil_change c = 0)"

text \<open>
  What the driver relies on from \<open>Mesh.calculate_change\<close>: it neither adds nor removes
  cells nor changes the class of one.
\<close>

definition keeps_kinds :: "mesh_ops \<Rightarrow> bool" where
  "keeps_kinds ops \<longleftrightarrow> (\<forall>cs i dt. map kind (calculate_change ops cs i dt) = map kind cs)"

definition commit_if_transport :: "cell \<Rightarrow> cell" where
  "commit_if_transport c = (if transport_capable c then commit_cell c else c)"

section \<open>The transport operator\<close>

text \<open>
  Modelled from the spec: \<open>Mesh.calculate_change(cell, dt)\<close> is in
  \<open>src/Simulation/mesh.py\<close>, which is not among the sources.  The specification (4.3)
  gives its contract: it reads the state as it stood at the start of the step and writes
  only \<open>cell.oil_change\<close>, never \<open>oil_amount\<close> and never a neighbour's state.
  \<open>change\<close> is the value it computes for the cell at position \<open>i\<close>.
\<close>

definition calculate_change_spec ::
  "(cell list \<Rightarrow> nat \<Rightarrow> real \<Rightarrow> real) \<Rightarrow> cell list \<Rightarrow> nat \<Rightarrow> real \<Rightarrow> cell list" where
  "calculate_change_spec change cs i dt = cs[i := (cs ! i)\<lparr>oil_change := change cs i dt\<rparr>]"

text \<open>
  The read set of the contract: the computed value does not depend on any cell's
  \<open>oil_change\<close>.
\<close>

definition time_t_reads :: "(cell list \<Rightarrow> nat \<Rightarrow> real \<Rightarrow> real) \<Rightarrow> bool" where
  "time_t_reads change \<longleftrightarrow>
     (\<forall>cs cs' i dt. map (\<lambda>c. c\<lparr>oil_change := 0\<rparr>) cs = map (\<lambda>c. c\<lparr>oil_change := 0\<rparr>) cs'
        \<longrightarrow> change cs i dt = change cs' i dt)"

text \<open>
  Modelled from the spec: the value \<open>calculate_change\<close> computes.  The specification
  (4.3) asks for a conservative exchange with the neighbours through a pluggable kernel,
  scaled by \<open>dt\<close> and normalised by \<open>area\<close>, in which what leaves a cell as flux-out
  appears as flux-in on the neighbour it is computed against.  \<open>flux i j a u b v\<close> is
  the flow, per unit of time, from cell \<open>i\<close>, of area \<open>a\<close> and holding \<open>u\<close>, to its
  neighbour \<open>j\<close>, of area \<open>b\<close> and holding \<open>v\<close>: the kernel is given the areas, and the
  normalisation is its own.  The change of a cell is what flows out of it during \<open>dt\<close>,
  taken from it.
\<close>

type_synonym kernel = "nat \<Rightarrow> nat \<Rightarrow> real \<Rightarrow> real \<Rightarrow> real \<Rightarrow> real \<Rightarrow> real"

definition flux_change :: "kernel \<Rightarrow> cell list \<Rightarrow> nat \<Rightarrow> real \<Rightarrow> real" where
  "flux_change flux cs i dt =
     - dt * (\<Sum>j\<leftarrow>neighbors (cs ! i).
               flux i j (area (cs ! i)) (oil_amount (cs ! i)) (area (cs ! j)) (oil_amount (cs ! j)))"

text \<open>The kernel's contract (a): \<open>flux(A\<rightarrow>B) = - flux(B\<rightarrow>A)\<close>.\<close>

definition antisymmetric_flux :: "kernel \<Rightarrow> bool" where
  "antisymmetric_flux flux \<longleftrightarrow> (\<forall>i j a u b v. flux i j a u b v = - flux j i b v a u)"

text \<open>
  A closed mesh: every neighbour of a transport-capable cell is a transport-capable cell
  of the mesh that has the cell among its own neighbours, and no neighbour is listed
  twice.
\<close>

definition closed_mesh :: "cell list \<Rightarrow> bool" where
  "closed_mesh cs \<longleftrightarrow>
     (\<forall>i < length cs. transport_capable (cs ! i) \<longrightarrow>
        distinct (neighbors (cs ! i)) \<and>
        (\<forall>j \<in> set (neighbors (cs ! i)).
           j < length cs \<and> transport_capable (cs ! j) \<and> i \<in> set (neighbors (cs ! j))))"

text \<open>The sums over the transport-capable cells.\<close>

definition total_change :: "cell list \<Rightarrow> real" where
  "total_change cs = (\<Sum>c\<leftarrow>filter transport_capable cs. oil_change c)"

definition total_oil :: "cell list \<Rightarrow> real" where
  "total_oil cs = (\<Sum>c\<leftarrow>filter transport_capable cs. oil_amount c)"

text \<open>
  The cell list after \<open>calculate_change_spec\<close> has run for the positions \<open>S\<close>, from the
  list \<open>cs\<close> at the start of the step.
\<close>

definition changes_written :: "(cell list \<Rightarrow> nat \<Rightarrow> real \<Rightarrow> real) \<Rightarrow> real \<Rightarrow> nat set \<Rightarrow> cell list \<Rightarrow> cell list" where
  "changes_written change dt S cs =
     map (\<lambda>j. if j \<in> S \<and> transport_capable (cs ! j) then (cs ! j)\<lparr>oil_change := change cs j dt\<rparr> else cs ! j)
       [0..<length cs]"

section \<open>The reported series\<close>

text \<open>
  What the specification says \<open>find_and_plot\<close> reports: for the steps \<open>1..n\<close>, in step
  order, the rounded simulation time after the step and the sum of \<open>oil_amount\<close> over the
  cells \<open>cia\<close> taken right after the step's commit loop.  \<open>cs\<close> and \<open>t\<close> are the cells
  and the time before the first of these steps.
\<close>

fun aggregate_series :: "mesh_ops \<Rightarrow> real \<Rightarrow> nat list \<Rightarrow> nat \<Rightarrow> cell list \<Rightarrow> real \<Rightarrow> (real \<times> real) list" where
  "aggregate_series ops dt cia 0 cs t = []"
| "aggregate_series ops dt cia (Suc n) cs t =
     (let cs' = cells (update_cells ops dt \<lparr>cells = cs, trace = []\<rparr>);
          t' = py_round (t + dt) 4
      in (t', oil_in_area cia cs') # aggregate_series ops dt cia n cs' t')"

text \<open>Assigning the entries of a list to a dictionary, one after the other.\<close>

definition assign_all :: "(real \<times> real) list \<Rightarrow> (real \<times> real) list \<Rightarrow> (real \<times> real) list" where
  "assign_all entries d = fold (\<lambda>(t, v). AList.update t v) entries d"

text \<open>The events of the stages before the step loop.\<close>

fun setup_event :: "event \<Rightarrow> bool" where
  "setup_event (EvCalculate i) = True"
| "setup_event (EvReadRestart p) = True"
| "setup_event EvInitialOil = True"
| "setup_event e = False"

section \<open>The restart file\<close>

text \<open>
  What a well-formed line of the restart file says for a mesh of \<open>n\<close> cells: the
  position of the cell its index denotes, and the amount.
\<close>

definition parse_line :: "py_env \<Rightarrow> nat \<Rightarrow> string \<Rightarrow> (nat \<times> real) option" where
  "parse_line env n line =
     (case split_on CHR '';'' line of
        [index_s, amount_s] \<Rightarrow>
          (case (py_int index_s, float_of_str env amount_s) of
             (Some i, Some v) \<Rightarrow> map_option (\<lambda>j. (j, v)) (list_index n i)
           | _ \<Rightarrow> None)
      | _ \<Rightarrow> None)"

definition restart_entries :: "py_env \<Rightarrow> nat \<Rightarrow> string list \<Rightarrow> (nat \<times> real) list" where
  "restart_entries env n lines = List.map_filter (parse_line env n) lines"

text \<open>The amount a cell holds after the entries were applied in order: the last one for it.\<close>

definition restored_amount :: "(nat \<times> real) list \<Rightarrow> nat \<Rightarrow> real \<Rightarrow> real" where
  "restored_amount entries j old = (case map_of (rev entries) j of None \<Rightarrow> old | Some v \<Rightarrow> v)"

section \<open>Concrete inputs\<close>

text \<open>
  A vertex and two triangles that are each other's neighbour, with areas \<open>a\<close> and \<open>b\<close>,
  holding \<open>u\<close> and \<open>v\<close>; in \<open>two_triangles\<close> the first triangle holds one unit of oil.
  The kernel of the concrete runs is the difference of the two cells' oil per area; the
  area of interest is the first triangle.
\<close>

definition triangle_pair :: "real \<Rightarrow> real \<Rightarrow> real \<Rightarrow> real \<Rightarrow> cell list" where
  "triangle_pair a b u v =
     [\<lparr>kind = Vertex, index = 0, area = 0, neighbors = [], oil_amount = 0, oil_change = 0\<rparr>,
      \<lparr>kind = Triangle, index = 1, area = a, neighbors = [2], oil_amount = u, oil_change = 0\<rparr>,
      \<lparr>kind = Triangle, index = 2, area = b, neighbors = [1], oil_amount = v, oil_change = 0\<rparr>]"

definition two_triangles :: "real \<Rightarrow> real \<Rightarrow> cell list" where
  "two_triangles a b = triangle_pair a b 1 0"

definition difference_flux :: kernel where
  "difference_flux i j a u b v = u / a - v / b"

definition demo_ops :: "real \<Rightarrow> real \<Rightarrow> mesh_ops" where
  "demo_ops a b =
     \<lparr>Mesh = (\<lambda>path. Inr (two_triangles a b)),
      calculate = (\<lambda>cs i. cs),
      initial_oil_distribution = (\<lambda>cs p. cs),
      cells_within_area = (\<lambda>cs xr yr. [1]),
      calculate_change = calculate_change_spec (flux_change difference_flux)\<rparr>"

text \<open>
  An environment with two restart files of three lines each; \<open>float\<close> is cut down to
  integer literals and the formatting of a float to \<open><integer part>.0\<close>.
\<close>

definition demo_env :: py_env where
  "demo_env =
     \<lparr>readlines = (\<lambda>path.
        if path = ''restart.txt'' then Inr [''2'' @ [CHR 0x0A], ''1;5'' @ [CHR 0x0A], ''2;3'' @ [CHR 0x0A]]
        else if path = ''other.txt'' then Inr [''2'' @ [CHR 0x0A], ''1;5'' @ [CHR 0x0A], ''7;3'' @ [CHR 0x0A]]
        else Inl (FileNotFoundError path)),
      float_of_str = (\<lambda>s. map_option of_int (py_int s)),
      str_of_float = (\<lambda>x. show_int \<lfloor>x\<rfloor> @ ''.0'')\<rparr>"

definition demo_state :: "real \<Rightarrow> real \<Rightarrow> loop_state" where
  "demo_state a b = \<lparr>cells = two_triangles a b, trace = [], current_time = 0, oil_area_time = []\<rparr>"

text \<open>Arguments of \<open>find_and_plot\<close> for that mesh.\<close>

definition demo_args :: "real \<Rightarrow> int \<Rightarrow> string option \<Rightarrow> args" where
  "demo_args t_end n restart =
     \<lparr>mesh_path = ''mesh.msh'', start_time = 0, end_time = t_end, intervals = n,
      write_frequency = 1, start_point = [0, 0], x_area = (0, 1), y_area = (0, 1),
      restartFile = restart, fast = 0\<rparr>"

text \<open>
  Configuration documents for concrete runs, from their three sections, and a world that
  holds one as \<open>input.toml\<close> next to the mesh file \<open>mesh.msh\<close>.
\<close>

definition demo_doc ::
  "(string \<times> tval) list \<Rightarrow> (string \<times> tval) list \<Rightarrow> (string \<times> tval) list \<Rightarrow> (string \<times> tval) list" where
  "demo_doc geometry settings io =
     [(''geometry'', TTable geometry), (''settings'', TTable settings), (''IO'', TTable io)]"

definition demo_geometry :: "(string \<times> tval) list" where
  "demo_geometry =
     [(''fish_area'', TList [TList [TFloat 0, TFloat (1 / 2)]]),
      (''initial_oil_area'', TList [TFloat (1 / 3), TFloat (1 / 2)]),
      (''filepath'', TStr ''mesh.msh'')]"

definition demo_settings :: "int \<Rightarrow> int \<Rightarrow> int \<Rightarrow> (string \<times> tval) list" where
  "demo_settings n b e = [(''nSteps'', TInt n), (''t_start'', TInt b), (''t_end'', TInt e)]"

definition demo_io :: "string \<Rightarrow> (string \<times> tval) list" where
  "demo_io restart =
     [(''writeFrequency'', TInt 0), (''restartFile'', TStr restart), (''logName'', TStr [])]"

definition demo_world :: "(string \<times> tval) list \<Rightarrow> world" where
  "demo_world doc =
     \<lparr>path_exists = (\<lambda>p. p = ''input.toml'' \<or> p = ''mesh.msh''),
      toml_load = (\<lambda>p. if p = ''input.toml'' then Inr doc else Inl (FileNotFoundError p))\<rparr>"

section \<open>One step of the driver\<close>

lemma same_kinds_nth:
  assumes "map kind cs = map kind cs'" and "i < length cs"
  shows "transport_capable (cs ! i) = transport_capable (cs' ! i)"
proof -
  from assms have "length cs' = length cs" by (metis length_map)
  with assms have "kind (cs ! i) = kind (cs' ! i)" by (metis nth_map)
  then show ?thesis by (simp add: transport_capable_def)
qed

lemma same_kinds_filter:
  assumes "map kind cs = map kind cs'"
  shows "filter (\<lambda>i. i < length cs \<and> transport_capable (cs ! i)) order =
         filter (\<lambda>i. i < length cs' \<and> transport_capable (cs' ! i)) order"
proof -
  from assms have "length cs' = length cs" by (metis length_map)
  with assms same_kinds_nth show ?thesis by (intro filter_cong) auto
qed

lemma for_transport_Nil [simp]: "for_transport body [] s = s"
  by (simp add: for_transport_def)

lemma for_transport_Cons:
  "for_transport body (i # order) s =
     for_transport body order
       (if i < length (cells s) \<and> transport_capable (cells s ! i) then body i s else s)"
  by (simp add: for_transport_def)

lemma for_transport_append:
  "for_transport body (xs @ ys) s = for_transport body ys (for_transport body xs s)"
  by (simp add: for_transport_def)

lemma for_transport_trace:
  assumes body: "\<And>i s. map kind (cells (body i s)) = map kind (cells s) \<and> trace (body i s) = trace s @ [ev i]"
  shows "map kind (cells (for_transport body order s)) = map kind (cells s) \<and>
         trace (for_transport body order s) =
           trace s @ map ev (filter (\<lambda>i. i < length (cells s) \<and> transport_capable (cells s ! i)) order)"
proof (induction order arbitrary: s)
  case Nil
  show ?case by simp
next
  case (Cons i order)
  show ?case
  proof (cases "i < length (cells s) \<and> transport_capable (cells s ! i)")
    case True
    have k: "map kind (cells (body i s)) = map kind (cells s)" using body by blast
    have t: "trace (body i s) = trace s @ [ev i]" using body by blast
    from True Cons.IH [of "body i s"] k t same_kinds_filter [OF k, of order]
    show ?thesis by (simp add: for_transport_Cons)
  next
    case False
    with Cons.IH [of s] show ?thesis by (auto simp add: for_transport_Cons)
  qed
qed

lemma commit_kinds: "map kind (cells (commit i s)) = map kind (cells s)"
proof (cases "i < length (cells s)")
  case True
  then show ?thesis
    by (simp add: commit_def commit_cell_def map_update list_update_same_conv)
next
  case False
  then have "(cells s)[i := commit_cell (cells s ! i)] = cells s"
    by (intro list_update_beyond) simp
  then show ?thesis by (simp add: commit_def)
qed

lemma commit_trace: "trace (commit i s) = trace s @ [EvCommit i]"
  by (simp add: commit_def)

lemma update_prefix:
  assumes "k < length cs"
  shows "(map f (take k cs) @ drop k cs)[k := f (cs ! k)] = map f (take (Suc k) cs) @ drop (Suc k) cs"
proof -
  have "drop k cs = cs ! k # drop (Suc k) cs" using assms by (simp add: Cons_nth_drop_Suc)
  moreover have "take (Suc k) cs = take k cs @ [cs ! k]" using assms by (simp add: take_Suc_conv_app_nth)
  ultimately show ?thesis using assms by (simp add: list_update_append)
qed

lemma nth_prefix:
  assumes "k < length cs"
  shows "(map f (take k cs) @ drop k cs) ! k = cs ! k"
  using assms by (simp add: nth_append)

lemma commit_prefix:
  "k \<le> length (cells s) \<Longrightarrow>
   cells (for_transport commit [0..<k] s) = map commit_if_transport (take k (cells s)) @ drop k (cells s)"
proof (induction k)
  case 0
  show ?case by simp
next
  case (Suc k)
  let ?s' = "for_transport commit [0..<k] s"
  from Suc have k: "k < length (cells s)" by simp
  from Suc have IH: "cells ?s' = map commit_if_transport (take k (cells s)) @ drop k (cells s)" by simp
  have len: "length (cells ?s') = length (cells s)" using IH k by simp
  have nth: "cells ?s' ! k = cells s ! k" using IH k by (simp add: nth_prefix)
  have "for_transport commit [0..<Suc k] s = for_transport commit [k] ?s'"
    by (simp add: for_transport_append)
  also have "cells \<dots> = map commit_if_transport (take (Suc k) (cells s)) @ drop (Suc k) (cells s)"
  proof (cases "transport_capable (cells s ! k)")
    case True
    then have "cells (for_transport commit [k] ?s') = (cells ?s')[k := commit_if_transport (cells s ! k)]"
      using k len nth by (simp add: for_transport_Cons commit_def commit_if_transport_def)
    then show ?thesis using update_prefix [OF k] IH by simp
  next
    case False
    have "cells ?s' = (cells ?s')[k := cells ?s' ! k]" by simp
    with False have "cells (for_transport commit [k] ?s') = (cells ?s')[k := commit_if_transport (cells s ! k)]"
      using k len nth by (simp add: for_transport_Cons commit_if_transport_def)
    then show ?thesis using update_prefix [OF k] IH by simp
  qed
  finally show ?case .
qed

lemma cells_commit_phase: "cells (commit_phase s) = map commit_if_transport (cells s)"
  using commit_prefix [of "length (cells s)" s] by (simp add: commit_phase_def)

lemma changes_clear_commit_phase: "changes_clear (cells (commit_phase s))"
  by (auto simp add: cells_commit_phase changes_clear_def commit_if_transport_def
        commit_cell_def transport_capable_def)

lemma trace_commit_phase:
  "trace (commit_phase s) = trace s @ map EvCommit (transport_positions (cells s))"
proof -
  have "filter (\<lambda>i. i < length (cells s) \<and> transport_capable (cells s ! i)) [0..<length (cells s)] =
        transport_positions (cells s)"
    unfolding transport_positions_def by (intro filter_cong) auto
  moreover have body: "\<And>i s :: 'a sim_scheme. map kind (cells (commit i s)) = map kind (cells s) \<and>
      trace (commit i s) = trace s @ [EvCommit i]"
    by (simp add: commit_kinds commit_trace)
  ultimately show ?thesis
    using for_transport_trace [where body = commit and ev = EvCommit and s = s
        and order = "[0..<length (cells s)]", OF body]
    by (simp add: commit_phase_def)
qed

lemma compute_phase_shape:
  assumes "keeps_kinds ops"
  shows "map kind (cells (compute_phase ops dt s)) = map kind (cells s) \<and>
         trace (compute_phase ops dt s) = trace s @ map EvCalcChange (transport_positions (cells s))"
proof -
  have body: "\<And>i s :: 'a sim_scheme. map kind (cells (call_calculate_change ops dt i s)) = map kind (cells s) \<and>
      trace (call_calculate_change ops dt i s) = trace s @ [EvCalcChange i]"
    using assms by (simp add: call_calculate_change_def keeps_kinds_def)
  have "filter (\<lambda>i. i < length (cells s) \<and> transport_capable (cells s ! i)) [0..<length (cells s)] =
        transport_positions (cells s)"
    unfolding transport_positions_def by (intro filter_cong) auto
  then show ?thesis
    using for_transport_trace [where body = "call_calculate_change ops dt" and ev = EvCalcChange
        and s = s and order = "[0..<length (cells s)]", OF body]
    by (simp add: compute_phase_def)
qed

lemma same_kinds_positions:
  assumes "map kind cs = map kind cs'"
  shows "transport_positions cs = transport_positions cs'"
proof -
  from assms have "length cs' = length cs" by (metis length_map)
  then show ?thesis
    unfolding transport_positions_def using same_kinds_nth [OF assms]
    by (auto intro: filter_cong)
qed

lemma update_cells_trace:
  assumes "keeps_kinds ops"
  shows "trace (update_cells ops dt s) =
     trace s @ map EvCalcChange (transport_positions (cells s)) @ map EvCommit (transport_positions (cells s))"
  using compute_phase_shape [OF assms, of dt s]
    same_kinds_positions [of "cells (compute_phase ops dt s)" "cells s"]
  by (simp add: update_cells_def trace_commit_phase)

lemma bind_Inr_iff: "bind m f = Inr y \<longleftrightarrow> (\<exists>x. m = Inr x \<and> f x = Inr y)"
  by (cases m) (simp_all add: bind_def)

lemma bind_Inr [simp]: "bind (Inr x) f = f x"
  by (simp add: bind_def)

lemma bind_Inl [simp]: "bind (Inl e) f = Inl e"
  by (simp add: bind_def)

lemma for_transport_cells_cong:
  fixes s :: "'a sim_scheme" and s' :: "'b sim_scheme"
  assumes body: "\<And>i (s :: 'a sim_scheme) (s' :: 'b sim_scheme). cells s = cells s' \<Longrightarrow> cells (body i s) = cells (body' i s')"
  shows "cells s = cells s' \<Longrightarrow> cells (for_transport body order s) = cells (for_transport body' order s')"
proof (induction order arbitrary: s s')
  case Nil
  then show ?case by simp
next
  case (Cons i order)
  show ?case
  proof (cases "i < length (cells s) \<and> transport_capable (cells s ! i)")
    case True
    with Cons.prems have T': "i < length (cells s') \<and> transport_capable (cells s' ! i)" by simp
    from Cons.prems have "cells (body i s) = cells (body' i s')" by (intro body)
    from Cons.IH [OF this] have "cells (for_transport body order (body i s)) =
        cells (for_transport body' order (body' i s'))" .
    moreover have "for_transport body (i # order) s = for_transport body order (body i s)"
      using True by (simp add: for_transport_Cons)
    moreover have "for_transport body' (i # order) s' = for_transport body' order (body' i s')"
      using T' by (simp add: for_transport_Cons)
    ultimately show ?thesis by simp
  next
    case False
    with Cons.prems have F': "\<not> (i < length (cells s') \<and> transport_capable (cells s' ! i))" by simp
    have "for_transport body (i # order) s = for_transport body order s"
      using False by (auto simp add: for_transport_Cons)
    moreover have "for_transport body' (i # order) s' = for_transport body' order s'"
      using F' by (auto simp add: for_transport_Cons)
    ultimately show ?thesis using Cons.IH [OF Cons.prems] by simp
  qed
qed

lemma update_cells_cells_cong:
  fixes s :: "'a sim_scheme" and s' :: "'b sim_scheme"
  assumes "cells s = cells s'"
  shows "cells (update_cells ops dt s) = cells (update_cells ops dt s')"
proof -
  have "cells (compute_phase ops dt s) = cells (compute_phase ops dt s')"
    unfolding compute_phase_def using assms
    by (simp add: for_transport_cells_cong [where body' = "call_calculate_change ops dt"] call_calculate_change_def)
  then show ?thesis
    unfolding update_cells_def by (simp add: cells_commit_phase)
qed

lemma step_body_cells:
  assumes "step_body ops wfreq fl dt cia k st = Inr st'"
  shows "cells st' = cells (update_cells ops dt st)"
proof -
  from assms have w: "wfreq \<noteq> 0" by (auto simp add: step_body_def split: if_splits)
  have "cells (update_cells ops dt (plot_call fl st)) = cells (update_cells ops dt st)"
    by (intro update_cells_cells_cong) (simp add: plot_call_def)
  with assms w show ?thesis
    by (auto simp add: step_body_def Let_def split: if_splits)
qed

lemma changes_clear_update_cells: "changes_clear (cells (update_cells ops dt s))"
  by (simp add: update_cells_def changes_clear_commit_phase)

lemma step_loop_append:
  "step_loop ops wfreq fl dt cia (ks1 @ ks2) st =
     bind (step_loop ops wfreq fl dt cia ks1 st) (step_loop ops wfreq fl dt cia ks2)"
proof (induction ks1 arbitrary: st)
  case Nil
  show ?case by simp
next
  case (Cons k ks1)
  show ?case
    by (cases "step_body ops wfreq fl dt cia k st") (simp_all add: Cons.IH)
qed

lemma step_loop_clear:
  assumes "step_loop ops wfreq fl dt cia ks st = Inr st'" and "ks \<noteq> []"
  shows "changes_clear (cells st')"
proof -
  from assms(2) obtain ks0 k where ks: "ks = ks0 @ [k]" by (metis rev_exhaust)
  with assms(1) obtain st1 where "step_body ops wfreq fl dt cia k st1 = Inr st'"
    by (auto simp add: step_loop_append bind_Inr_iff)
  then show ?thesis using step_body_cells changes_clear_update_cells by metis
qed

text \<open>
  Claim C1.  One step of the driver is the compute loop followed by the commit loop: the
  trace of a step is a call of \<open>calculate_change\<close> for every transport-capable cell, in
  mesh order, and only then a commit for every transport-capable cell; the cells after
  the step are those the whole compute loop left, each transport-capable one with its
  \<open>oil_change\<close> added to its \<open>oil_amount\<close> and then set to 0.  After a step
  every transport-capable cell has \<open>oil_change = 0\<close>; this holds after the body of
  the step loop, whose cells are those of the two-phase update, and so at every point
  between two steps of the loop, where the next compute phase starts.
\<close>

theorem two_phase_step:
  "(keeps_kinds ops \<longrightarrow>
      trace (update_cells ops dt s) =
        trace s @ map EvCalcChange (transport_positions (cells s))
                @ map EvCommit (transport_positions (cells s))) \<and>
   cells (update_cells ops dt s) =
     map (\<lambda>c. if transport_capable c
              then c\<lparr>oil_amount := oil_amount c + oil_change c, oil_change := 0\<rparr> else c)
       (cells (compute_phase ops dt s)) \<and>
   changes_clear (cells (update_cells ops dt s)) \<and>
   (step_body ops wfreq fl dt cia k st = Inr st' \<longrightarrow>
      cells st' = cells (update_cells ops dt st) \<and> changes_clear (cells st')) \<and>
   (ks1 \<noteq> [] \<and> step_loop ops wfreq fl dt cia (ks1 @ ks2) st = Inr st'' \<longrightarrow>
      (\<exists>st1. step_loop ops wfreq fl dt cia ks1 st = Inr st1 \<and> changes_clear (cells st1) \<and>
             step_loop ops wfreq fl dt cia ks2 st1 = Inr st''))"
proof (intro conjI impI)
  have "commit_if_transport = (\<lambda>c. if transport_capable c
              then c\<lparr>oil_amount := oil_amount c + oil_change c, oil_change := 0\<rparr> else c)"
    by (rule ext) (simp add: commit_if_transport_def commit_cell_def)
  then show "cells (update_cells ops dt s) =
     map (\<lambda>c. if transport_capable c
              then c\<lparr>oil_amount := oil_amount c + oil_change c, oil_change := 0\<rparr> else c)
       (cells (compute_phase ops dt s))"
    by (simp add: update_cells_def cells_commit_phase)
next
  assume "keeps_kinds ops"
  then show "trace (update_cells ops dt s) =
        trace s @ map EvCalcChange (transport_positions (cells s))
                @ map EvCommit (transport_positions (cells s))"
    by (rule update_cells_trace)
next
  show "changes_clear (cells (update_cells ops dt s))" by (rule changes_clear_update_cells)
next
  assume b: "step_body ops wfreq fl dt cia k st = Inr st'"
  then show "cells st' = cells (update_cells ops dt st)" by (rule step_body_cells)
  with changes_clear_update_cells show "changes_clear (cells st')" by metis
next
  assume a: "ks1 \<noteq> [] \<and> step_loop ops wfreq fl dt cia (ks1 @ ks2) st = Inr st''"
  then obtain st1 where 1: "step_loop ops wfreq fl dt cia ks1 st = Inr st1"
    and 2: "step_loop ops wfreq fl dt cia ks2 st1 = Inr st''"
    by (auto simp add: step_loop_append bind_Inr_iff)
  from 1 a have "changes_clear (cells st1)" by (intro step_loop_clear) auto
  with 1 2 show "\<exists>st1. step_loop ops wfreq fl dt cia ks1 st = Inr st1 \<and> changes_clear (cells st1) \<and>
             step_loop ops wfreq fl dt cia ks2 st1 = Inr st''" by blast
qed

lemma keeps_kinds_spec:
  assumes "calculate_change ops = calculate_change_spec change"
  shows "keeps_kinds ops"
proof -
  have "map kind (cs[i := (cs ! i)\<lparr>oil_change := x\<rparr>]) = map kind cs" for cs :: "cell list" and i x
  proof (cases "i < length cs")
    case True
    then show ?thesis by (simp add: map_update list_update_same_conv)
  next
    case False
    then have "cs[i := (cs ! i)\<lparr>oil_change := x\<rparr>] = cs" by (intro list_update_beyond) simp
    then show ?thesis by simp
  qed
  with assms show ?thesis by (simp add: keeps_kinds_def calculate_change_spec_def)
qed

lemma demo_positions: "transport_positions (two_triangles a b) = [1, 2]"
  by (simp add: transport_positions_def two_triangles_def triangle_pair_def transport_capable_def upt_rec)

lemma step_body_total:
  "wfreq \<noteq> 0 \<Longrightarrow> \<exists>st'. step_body ops wfreq fl dt cia k st = Inr st'"
  by (simp add: step_body_def Let_def)

lemma step_loop_total:
  "wfreq \<noteq> 0 \<Longrightarrow> \<exists>st'. step_loop ops wfreq fl dt cia ks st = Inr st'"
proof (induction ks arbitrary: st)
  case Nil
  show ?case by simp
next
  case (Cons k ks)
  from step_body_total [OF Cons.prems] obtain st1 where "step_body ops wfreq fl dt cia k st = Inr st1"
    by blast
  with Cons.IH [OF Cons.prems, of st1] show ?case by simp
qed

theorem two_phase_step_witness:
  "keeps_kinds (demo_ops 1 1) \<and>
   trace (update_cells (demo_ops 1 1) (1 / 4) (demo_state 1 1)) =
     [EvCalcChange 1, EvCalcChange 2, EvCommit 1, EvCommit 2] \<and>
   changes_clear (cells (update_cells (demo_ops 1 1) (1 / 4) (demo_state 1 1))) \<and>
   (\<exists>st'. step_body (demo_ops 1 1) 1 0 (1 / 4) [1, 2] 0 (demo_state 1 1) = Inr st' \<and>
      cells st' = cells (update_cells (demo_ops 1 1) (1 / 4) (demo_state 1 1)) \<and>
      changes_clear (cells st')) \<and>
   (\<exists>st1 st''. step_loop (demo_ops 1 1) 1 0 (1 / 4) [1, 2] [0] (demo_state 1 1) = Inr st1 \<and>
      changes_clear (cells st1) \<and>
      step_loop (demo_ops 1 1) 1 0 (1 / 4) [1, 2] [1] st1 = Inr st'')"
proof -
  have kk: "keeps_kinds (demo_ops 1 1)"
    by (rule keeps_kinds_spec [where change = "flux_change difference_flux"]) (simp add: demo_ops_def)
  obtain st' where b: "step_body (demo_ops 1 1) 1 0 (1 / 4) [1, 2] 0 (demo_state 1 1) = Inr st'"
    using step_body_total [of 1 "demo_ops 1 1" 0 "1 / 4" "[1, 2]" 0 "demo_state 1 1"] by auto
  obtain st'' where l: "step_loop (demo_ops 1 1) 1 0 (1 / 4) [1, 2] ([0] @ [1]) (demo_state 1 1) = Inr st''"
    using step_loop_total [of 1 "demo_ops 1 1" 0 "1 / 4" "[1, 2]" "[0] @ [1]" "demo_state 1 1"] by auto
  have ne: "[0::nat] \<noteq> []" by simp
  note T = two_phase_step [of "demo_ops 1 1" "1 / 4" "demo_state 1 1" 1 0 "[1, 2]" 0 "demo_state 1 1" st'
        "[0]" "[1]" st'']
  from T kk have "trace (update_cells (demo_ops 1 1) (1 / 4) (demo_state 1 1)) =
      trace (demo_state 1 1) @ map EvCalcChange (transport_positions (cells (demo_state 1 1))) @
        map EvCommit (transport_positions (cells (demo_state 1 1)))"
    by blast
  then have 1: "trace (update_cells (demo_ops 1 1) (1 / 4) (demo_state 1 1)) =
     [EvCalcChange 1, EvCalcChange 2, EvCommit 1, EvCommit 2]"
    by (simp add: demo_positions demo_state_def)
  from T have 2: "changes_clear (cells (update_cells (demo_ops 1 1) (1 / 4) (demo_state 1 1)))"
    by blast
  from T b have 3: "cells st' = cells (update_cells (demo_ops 1 1) (1 / 4) (demo_state 1 1)) \<and>
      changes_clear (cells st')"
    by blast
  from T l ne have 4: "\<exists>st1. step_loop (demo_ops 1 1) 1 0 (1 / 4) [1, 2] [0] (demo_state 1 1) = Inr st1 \<and>
      changes_clear (cells st1) \<and> step_loop (demo_ops 1 1) 1 0 (1 / 4) [1, 2] [1] st1 = Inr st''"
    by blast
  from kk 1 2 b 3 4 show ?thesis by blast
qed

section \<open>Order independence of the compute loop\<close>

lemma length_changes_written [simp]: "length (changes_written change dt S cs) = length cs"
  by (simp add: changes_written_def)

lemma nth_changes_written:
  "j < length cs \<Longrightarrow> changes_written change dt S cs ! j =
     (if j \<in> S \<and> transport_capable (cs ! j) then (cs ! j)\<lparr>oil_change := change cs j dt\<rparr> else cs ! j)"
  by (simp add: changes_written_def)

lemma changes_written_empty [simp]: "changes_written change dt {} cs = cs"
  by (intro nth_equalityI) (simp_all add: nth_changes_written)

lemma erase_changes_written:
  "map (\<lambda>c. c\<lparr>oil_change := 0\<rparr>) (changes_written change dt S cs) = map (\<lambda>c. c\<lparr>oil_change := 0\<rparr>) cs"
  by (intro nth_equalityI) (simp_all add: nth_changes_written)

lemma transport_changes_written:
  "j < length cs \<Longrightarrow> transport_capable (changes_written change dt S cs ! j) = transport_capable (cs ! j)"
  by (simp add: nth_changes_written transport_capable_def)

lemma changes_written_visit:
  assumes reads: "time_t_reads change" and i: "i < length cs" "i \<notin> S" "transport_capable (cs ! i)"
  shows "calculate_change_spec change (changes_written change dt S cs) i dt =
         changes_written change dt (insert i S) cs"
proof -
  let ?cur = "changes_written change dt S cs"
  have "change ?cur i dt = change cs i dt"
    using reads erase_changes_written [of change dt S cs] unfolding time_t_reads_def by blast
  moreover have "?cur ! i = cs ! i" using i by (simp add: nth_changes_written)
  ultimately have "calculate_change_spec change ?cur i dt = ?cur[i := (cs ! i)\<lparr>oil_change := change cs i dt\<rparr>]"
    by (simp add: calculate_change_spec_def)
  also have "\<dots> = changes_written change dt (insert i S) cs"
    using i by (intro nth_equalityI) (auto simp add: nth_changes_written nth_list_update)
  finally show ?thesis .
qed

lemma changes_written_skip:
  assumes "\<not> (i < length cs \<and> transport_capable (cs ! i))"
  shows "changes_written change dt (insert i S) cs = changes_written change dt S cs"
  using assms by (intro nth_equalityI) (auto simp add: nth_changes_written)

lemma compute_any_order:
  assumes spec: "calculate_change ops = calculate_change_spec change" and reads: "time_t_reads change"
  shows "distinct order \<Longrightarrow> set order \<inter> S = {} \<Longrightarrow> cells s = changes_written change dt S cs \<Longrightarrow>
         cells (for_transport (call_calculate_change ops dt) order s) =
           changes_written change dt (S \<union> set order) cs"
proof (induction order arbitrary: S s)
  case Nil
  then show ?case by simp
next
  case (Cons i order)
  from Cons.prems have d: "distinct order" and iS: "i \<notin> S" and io: "i \<notin> set order"
    and disj: "set order \<inter> insert i S = {}" by auto
  show ?case
  proof (cases "i < length cs \<and> transport_capable (cs ! i)")
    case True
    then have v: "i < length (cells s) \<and> transport_capable (cells s ! i)"
      using Cons.prems(3) by (simp add: transport_changes_written)
    let ?s' = "call_calculate_change ops dt i s"
    have "cells ?s' = changes_written change dt (insert i S) cs"
      using True iS Cons.prems(3) changes_written_visit [OF reads, of i cs S dt]
      by (simp add: call_calculate_change_def spec)
    from Cons.IH [OF d disj this]
    have "cells (for_transport (call_calculate_change ops dt) order ?s') =
        changes_written change dt (insert i S \<union> set order) cs" .
    moreover have "for_transport (call_calculate_change ops dt) (i # order) s =
        for_transport (call_calculate_change ops dt) order ?s'"
      using v by (auto simp add: for_transport_Cons)
    ultimately show ?thesis by simp
  next
    case False
    then have v: "\<not> (i < length (cells s) \<and> transport_capable (cells s ! i))"
      using Cons.prems(3) by (auto simp add: transport_changes_written)
    have "cells s = changes_written change dt (insert i S) cs"
      using Cons.prems(3) changes_written_skip [OF False] by simp
    from Cons.IH [OF d disj this]
    have "cells (for_transport (call_calculate_change ops dt) order s) =
        changes_written change dt (insert i S \<union> set order) cs" .
    moreover have "for_transport (call_calculate_change ops dt) (i # order) s =
        for_transport (call_calculate_change ops dt) order s"
      using v by (auto simp add: for_transport_Cons)
    ultimately show ?thesis by simp
  qed
qed

lemma compute_permuted:
  assumes spec: "calculate_change ops = calculate_change_spec change" and reads: "time_t_reads change"
    and perm: "mset order = mset [0..<length (cells s)]"
  shows "cells (for_transport (call_calculate_change ops dt) order s) =
         changes_written change dt {0..<length (cells s)} (cells s)"
proof -
  from perm have d: "distinct order" by (metis distinct_upt mset_eq_imp_distinct_iff)
  from perm have "set order = {0..<length (cells s)}" by (metis mset_eq_setD set_upt)
  with compute_any_order [OF spec reads d, of "{}" s dt "cells s"] show ?thesis by simp
qed

lemma cells_compute_phase_spec:
  assumes spec: "calculate_change ops = calculate_change_spec change" and reads: "time_t_reads change"
  shows "cells (compute_phase ops dt s) = changes_written change dt {0..<length (cells s)} (cells s)"
  unfolding compute_phase_def by (rule compute_permuted [OF spec reads]) simp

lemma calculate_change_spec_frame:
  "map oil_amount (calculate_change_spec change cs i dt) = map oil_amount cs \<and>
   length (calculate_change_spec change cs i dt) = length cs \<and>
   (\<forall>j. j \<noteq> i \<longrightarrow> calculate_change_spec change cs i dt ! j = cs ! j)"
proof -
  have "map oil_amount (cs[i := (cs ! i)\<lparr>oil_change := x\<rparr>]) = map oil_amount cs" for x
  proof (cases "i < length cs")
    case True
    then show ?thesis by (simp add: map_update list_update_same_conv)
  next
    case False
    then have "cs[i := (cs ! i)\<lparr>oil_change := x\<rparr>] = cs" by (intro list_update_beyond) simp
    then show ?thesis by simp
  qed
  then show ?thesis by (simp add: calculate_change_spec_def)
qed

text \<open>
  Claim C2.  With \<open>calculate_change\<close> as the specification describes it (it writes only
  the \<open>oil_change\<close> of its cell, from values that do not depend on any \<open>oil_change\<close>),
  visiting the cells of the compute loop in any permuted order, and committing afterwards,
  gives every cell the \<open>oil_amount\<close> of the unpermuted step; and a call of
  \<open>calculate_change\<close> changes no \<open>oil_amount\<close> and no other cell.
\<close>

theorem order_independence:
  assumes "calculate_change ops = calculate_change_spec change"
    and "time_t_reads change"
    and "mset order = mset [0..<length (cells s)]"
  shows "map oil_amount (cells (commit_phase (for_transport (call_calculate_change ops dt) order s))) =
           map oil_amount (cells (update_cells ops dt s)) \<and>
         map oil_amount (calculate_change ops cs i dt) = map oil_amount cs \<and>
         (\<forall>j. j \<noteq> i \<longrightarrow> calculate_change ops cs i dt ! j = cs ! j)"
proof -
  have "cells (for_transport (call_calculate_change ops dt) order s) = cells (compute_phase ops dt s)"
    using compute_permuted [OF assms, of dt] cells_compute_phase_spec [OF assms(1,2), of dt s] by simp
  then have "cells (commit_phase (for_transport (call_calculate_change ops dt) order s)) =
      cells (update_cells ops dt s)"
    by (simp add: cells_commit_phase update_cells_def)
  then show ?thesis using calculate_change_spec_frame [of change cs i dt] assms(1) by simp
qed

lemma nth_beyond:
  "length xs = length ys \<Longrightarrow> length xs \<le> n \<Longrightarrow> xs ! n = ys ! n"
proof (induction xs arbitrary: ys n)
  case Nil
  then show ?case by simp
next
  case (Cons x xs)
  then obtain y ys' where ys: "ys = y # ys'" by (cases ys) auto
  from Cons.prems obtain k where n: "n = Suc k" by (cases n) auto
  from Cons.prems ys n Cons.IH [of ys' k] show ?case by simp
qed

lemma erased_nth:
  assumes "map (\<lambda>c. c\<lparr>oil_change := 0\<rparr>) cs = map (\<lambda>c. c\<lparr>oil_change := 0\<rparr>) cs'"
  shows "(cs ! j)\<lparr>oil_change := 0\<rparr> = (cs' ! j)\<lparr>oil_change := 0\<rparr>"
proof -
  from assms have len: "length cs = length cs'" by (metis length_map)
  show ?thesis
  proof (cases "j < length cs")
    case True
    with assms len show ?thesis by (metis nth_map)
  next
    case False
    with len nth_beyond [of cs cs' j] show ?thesis by simp
  qed
qed

lemma erased_fields:
  assumes "(c :: cell)\<lparr>oil_change := 0\<rparr> = c'\<lparr>oil_change := 0\<rparr>"
  shows "area c = area c'" and "neighbors c = neighbors c'" and "oil_amount c = oil_amount c'"
proof -
  have "area (c\<lparr>oil_change := 0\<rparr>) = area (c'\<lparr>oil_change := 0\<rparr>)" using assms by simp
  then show "area c = area c'" by simp
  have "neighbors (c\<lparr>oil_change := 0\<rparr>) = neighbors (c'\<lparr>oil_change := 0\<rparr>)" using assms by simp
  then show "neighbors c = neighbors c'" by simp
  have "oil_amount (c\<lparr>oil_change := 0\<rparr>) = oil_amount (c'\<lparr>oil_change := 0\<rparr>)" using assms by simp
  then show "oil_amount c = oil_amount c'" by simp
qed

lemma time_t_reads_flux: "time_t_reads (flux_change flux)"
  unfolding time_t_reads_def
proof (intro allI impI)
  fix cs cs' :: "cell list" and i :: nat and dt :: real
  assume eq: "map (\<lambda>c. c\<lparr>oil_change := 0\<rparr>) cs = map (\<lambda>c. c\<lparr>oil_change := 0\<rparr>) cs'"
  have f: "area (cs ! j) = area (cs' ! j) \<and> neighbors (cs ! j) = neighbors (cs' ! j) \<and>
      oil_amount (cs ! j) = oil_amount (cs' ! j)" for j
    using erased_fields [OF erased_nth [OF eq, of j]] by simp
  show "flux_change flux cs i dt = flux_change flux cs' i dt"
    by (simp add: flux_change_def f)
qed

theorem order_independence_witness:
  "calculate_change (demo_ops 1 2) = calculate_change_spec (flux_change difference_flux) \<and>
   time_t_reads (flux_change difference_flux) \<and>
   mset [2, 0, 1] = mset [0..<length (cells (demo_state 1 2))] \<and>
   map oil_amount (cells (commit_phase
      (for_transport (call_calculate_change (demo_ops 1 2) (1 / 4)) [2, 0, 1] (demo_state 1 2)))) =
     map oil_amount (cells (update_cells (demo_ops 1 2) (1 / 4) (demo_state 1 2))) \<and>
   map oil_amount (calculate_change (demo_ops 1 2) (two_triangles 1 2) 1 (1 / 4)) =
     map oil_amount (two_triangles 1 2) \<and>
   calculate_change (demo_ops 1 2) (two_triangles 1 2) 1 (1 / 4) ! 2 = two_triangles 1 2 ! 2"
proof -
  have a: "calculate_change (demo_ops 1 2) = calculate_change_spec (flux_change difference_flux)"
    by (simp add: demo_ops_def)
  have b: "mset [2, 0, 1] = mset [0..<length (cells (demo_state 1 2))]"
    by (simp add: demo_state_def two_triangles_def triangle_pair_def upt_rec)
  have c: "(2::nat) \<noteq> 1" by simp
  show ?thesis
    using a b c time_t_reads_flux [of difference_flux]
      order_independence [OF a time_t_reads_flux b, of "1 / 4" "two_triangles 1 2" 1]
    by blast
qed

section \<open>Conservation in the compute loop\<close>

lemma closed_meshD:
  assumes "closed_mesh cs" and "i < length cs" and "transport_capable (cs ! i)"
    and "j \<in> set (neighbors (cs ! i))"
  shows "j < length cs" and "transport_capable (cs ! j)" and "i \<in> set (neighbors (cs ! j))"
proof -
  from assms(1-3) have "\<forall>j \<in> set (neighbors (cs ! i)).
      j < length cs \<and> transport_capable (cs ! j) \<and> i \<in> set (neighbors (cs ! j))"
    unfolding closed_mesh_def by blast
  with assms(4) show "j < length cs" and "transport_capable (cs ! j)" and "i \<in> set (neighbors (cs ! j))"
    by blast+
qed

lemma closed_mesh_distinct:
  assumes "closed_mesh cs" and "i < length cs" and "transport_capable (cs ! i)"
  shows "distinct (neighbors (cs ! i))"
  using assms unfolding closed_mesh_def by blast

lemma flux_sum_zero:
  assumes anti: "antisymmetric_flux flux" and closed: "closed_mesh cs"
  shows "(\<Sum>i\<in>{i. i < length cs \<and> transport_capable (cs ! i)}.
            \<Sum>j\<leftarrow>neighbors (cs ! i).
              flux i j (area (cs ! i)) (oil_amount (cs ! i)) (area (cs ! j)) (oil_amount (cs ! j))) = 0"
proof -
  let ?T = "{i. i < length cs \<and> transport_capable (cs ! i)}"
  let ?N = "\<lambda>i. set (neighbors (cs ! i))"
  let ?g = "\<lambda>p. flux (fst p) (snd p) (area (cs ! fst p)) (oil_amount (cs ! fst p))
                    (area (cs ! snd p)) (oil_amount (cs ! snd p))"
  let ?E = "Sigma ?T ?N"
  have fin: "finite ?T" by simp
  have sym: "j < length cs" "transport_capable (cs ! j)" "i \<in> set (neighbors (cs ! j))"
    if "j \<in> set (neighbors (cs ! i))" "i < length cs" "transport_capable (cs ! i)" for i j
    using closed_meshD [OF closed that(2,3,1)] by blast+
  have "(\<Sum>i\<in>?T. \<Sum>j\<leftarrow>neighbors (cs ! i).
           flux i j (area (cs ! i)) (oil_amount (cs ! i)) (area (cs ! j)) (oil_amount (cs ! j))) =
        (\<Sum>i\<in>?T. \<Sum>j\<in>?N i. ?g (i, j))"
  proof (rule sum.cong)
    fix i assume "i \<in> ?T"
    then have "distinct (neighbors (cs ! i))" using closed_mesh_distinct [OF closed] by simp
    then show "(\<Sum>j\<leftarrow>neighbors (cs ! i).
           flux i j (area (cs ! i)) (oil_amount (cs ! i)) (area (cs ! j)) (oil_amount (cs ! j))) =
        (\<Sum>j\<in>?N i. ?g (i, j))"
      by (simp add: sum_list_distinct_conv_sum_set)
  qed simp
  also have "\<dots> = sum ?g ?E"
    using fin by (simp add: sum.Sigma case_prod_beta)
  finally have lhs: "(\<Sum>i\<in>?T. \<Sum>j\<leftarrow>neighbors (cs ! i).
           flux i j (area (cs ! i)) (oil_amount (cs ! i)) (area (cs ! j)) (oil_amount (cs ! j))) =
      sum ?g ?E" .
  have "sum ?g ?E = sum (\<lambda>p. ?g (prod.swap p)) ?E"
  proof (rule sum.reindex_bij_witness [where i = prod.swap and j = prod.swap])
    fix p assume p: "p \<in> ?E"
    obtain i j where ij: "p = (i, j)" by (cases p)
    from p ij have "i < length cs" "transport_capable (cs ! i)" "j \<in> set (neighbors (cs ! i))"
      by simp_all
    from sym [OF this(3,1,2)] ij show "prod.swap p \<in> ?E" by simp
    then show "prod.swap p \<in> ?E" .
  next
    show "prod.swap (prod.swap p) = p" for p :: "nat \<times> nat" by (rule swap_swap)
    then show "prod.swap (prod.swap p) = p" for p :: "nat \<times> nat" .
  next
    show "?g (prod.swap (prod.swap p)) = ?g p" for p :: "nat \<times> nat"
      by (simp only: swap_swap)
  qed
  also have "\<dots> = sum (\<lambda>p. - ?g p) ?E"
  proof (rule sum.cong)
    fix p :: "nat \<times> nat"
    from anti have "flux (snd p) (fst p) (area (cs ! snd p)) (oil_amount (cs ! snd p))
          (area (cs ! fst p)) (oil_amount (cs ! fst p)) =
        - flux (fst p) (snd p) (area (cs ! fst p)) (oil_amount (cs ! fst p))
            (area (cs ! snd p)) (oil_amount (cs ! snd p))"
      unfolding antisymmetric_flux_def by blast
    then show "?g (prod.swap p) = - ?g p" by (simp only: fst_swap snd_swap)
  qed (rule refl)
  also have "\<dots> = - sum ?g ?E" by (simp add: sum_negf)
  finally have "sum ?g ?E = 0" by simp
  with lhs show ?thesis by simp
qed

lemma filter_changes_written:
  "filter transport_capable (changes_written change dt {0..<length cs} cs) =
     map (\<lambda>j. (cs ! j)\<lparr>oil_change := change cs j dt\<rparr>) (transport_positions cs)"
proof -
  have "filter transport_capable (changes_written change dt {0..<length cs} cs) =
      map (\<lambda>j. if j \<in> {0..<length cs} \<and> transport_capable (cs ! j)
                 then (cs ! j)\<lparr>oil_change := change cs j dt\<rparr> else cs ! j)
        (filter (\<lambda>j. transport_capable (cs ! j)) [0..<length cs])"
    unfolding changes_written_def filter_map
    by (intro arg_cong [where f = "map _"] filter_cong) (auto simp add: transport_capable_def)
  also have "\<dots> = map (\<lambda>j. (cs ! j)\<lparr>oil_change := change cs j dt\<rparr>) (transport_positions cs)"
    unfolding transport_positions_def by (intro map_cong) auto
  finally show ?thesis .
qed

lemma sum_positions:
  "(\<Sum>j\<leftarrow>transport_positions cs. f j) = (\<Sum>j\<in>{i. i < length cs \<and> transport_capable (cs ! i)}. f j)"
proof -
  have "distinct (transport_positions cs)" by (simp add: transport_positions_def)
  moreover have "set (transport_positions cs) = {i. i < length cs \<and> transport_capable (cs ! i)}"
    by (auto simp add: transport_positions_def)
  ultimately show ?thesis by (metis sum_list_distinct_conv_sum_set)
qed

lemma total_change_written:
  "total_change (changes_written change dt {0..<length cs} cs) =
     (\<Sum>i\<in>{i. i < length cs \<and> transport_capable (cs ! i)}. change cs i dt)"
  by (simp add: total_change_def filter_changes_written comp_def sum_positions)

lemma total_oil_written:
  "total_oil (changes_written change dt {0..<length cs} cs) = total_oil cs"
proof -
  have "filter transport_capable cs = map (\<lambda>j. cs ! j) (transport_positions cs)"
  proof -
    have "filter transport_capable (map (\<lambda>j. cs ! j) [0..<length cs]) =
        map (\<lambda>j. cs ! j) (transport_positions cs)"
      unfolding filter_map transport_positions_def by (simp add: comp_def)
    then show ?thesis by (simp add: map_nth)
  qed
  then show ?thesis
    by (simp add: total_oil_def filter_changes_written comp_def)
qed

lemma total_oil_commit:
  "total_oil (map commit_if_transport cs) = total_oil cs + total_change cs"
proof -
  have "filter transport_capable (map commit_if_transport cs) =
      map commit_cell (filter transport_capable cs)"
    by (induction cs) (auto simp add: commit_if_transport_def commit_cell_def transport_capable_def)
  then have "total_oil (map commit_if_transport cs) =
      (\<Sum>c\<leftarrow>filter transport_capable cs. oil_amount c + oil_change c)"
    by (simp add: total_oil_def comp_def commit_cell_def)
  then show ?thesis
    by (simp add: total_oil_def total_change_def sum_list_addf)
qed

lemma flux_change_sum:
  assumes anti: "antisymmetric_flux flux" and closed: "closed_mesh cs"
  shows "(\<Sum>i\<in>{i. i < length cs \<and> transport_capable (cs ! i)}. flux_change flux cs i dt) = 0"
proof -
  let ?T = "{i. i < length cs \<and> transport_capable (cs ! i)}"
  let ?S = "\<lambda>i. \<Sum>j\<leftarrow>neighbors (cs ! i).
              flux i j (area (cs ! i)) (oil_amount (cs ! i)) (area (cs ! j)) (oil_amount (cs ! j))"
  have "(\<Sum>i\<in>?T. flux_change flux cs i dt) = (\<Sum>i\<in>?T. - dt * ?S i)"
    by (simp only: flux_change_def)
  also have "\<dots> = - dt * sum ?S ?T" by (simp only: sum_distrib_left)
  finally show ?thesis using flux_sum_zero [OF anti closed] by simp
qed

lemma closed_mesh_same:
  assumes closed: "closed_mesh cs" and len: "length cs' = length cs"
    and same: "\<And>i. i < length cs \<Longrightarrow>
                 kind (cs' ! i) = kind (cs ! i) \<and> neighbors (cs' ! i) = neighbors (cs ! i)"
  shows "closed_mesh cs'"
  unfolding closed_mesh_def
proof (intro allI impI)
  fix i assume i: "i < length cs'" and t: "transport_capable (cs' ! i)"
  from i len have i': "i < length cs" by simp
  from t same [OF i'] have t': "transport_capable (cs ! i)" by (simp add: transport_capable_def)
  have n: "neighbors (cs' ! i) = neighbors (cs ! i)" using same [OF i'] by simp
  have "j < length cs' \<and> transport_capable (cs' ! j) \<and> i \<in> set (neighbors (cs' ! j))"
    if "j \<in> set (neighbors (cs ! i))" for j
  proof -
    note d = closed_meshD [OF closed i' t' that]
    from d(2) same [OF d(1)] have "transport_capable (cs' ! j)" by (simp add: transport_capable_def)
    moreover from d(3) same [OF d(1)] have "i \<in> set (neighbors (cs' ! j))" by simp
    ultimately show ?thesis using d(1) len by simp
  qed
  then show "distinct (neighbors (cs' ! i)) \<and>
      (\<forall>j \<in> set (neighbors (cs' ! i)).
         j < length cs' \<and> transport_capable (cs' ! j) \<and> i \<in> set (neighbors (cs' ! j)))"
    using closed_mesh_distinct [OF closed i' t'] n by simp
qed

lemma conservation_step:
  assumes spec: "calculate_change ops = calculate_change_spec (flux_change flux)"
    and anti: "antisymmetric_flux flux"
    and closed: "closed_mesh (cells s)"
  shows "total_change (cells (compute_phase ops dt s)) = 0"
    and "total_oil (cells (update_cells ops dt s)) = total_oil (cells s)"
    and "closed_mesh (cells (update_cells ops dt s))"
proof -
  let ?cs1 = "cells (compute_phase ops dt s)"
  have c1: "?cs1 = changes_written (flux_change flux) dt {0..<length (cells s)} (cells s)"
    by (rule cells_compute_phase_spec [OF spec time_t_reads_flux])
  show t: "total_change ?cs1 = 0"
    unfolding c1 total_change_written using flux_change_sum [OF anti closed] .
  have "total_oil (cells (update_cells ops dt s)) = total_oil ?cs1 + total_change ?cs1"
    by (simp add: update_cells_def cells_commit_phase total_oil_commit)
  also have "total_oil ?cs1 = total_oil (cells s)"
    unfolding c1 by (rule total_oil_written)
  finally show "total_oil (cells (update_cells ops dt s)) = total_oil (cells s)" using t by simp
  have u: "cells (update_cells ops dt s) =
      map commit_if_transport (changes_written (flux_change flux) dt {0..<length (cells s)} (cells s))"
    by (simp add: update_cells_def cells_commit_phase c1)
  show "closed_mesh (cells (update_cells ops dt s))"
  proof (rule closed_mesh_same [OF closed])
    show "length (cells (update_cells ops dt s)) = length (cells s)"
      by (simp add: u changes_written_def)
  next
    fix i assume "i < length (cells s)"
    then show "kind (cells (update_cells ops dt s) ! i) = kind (cells s ! i) \<and>
        neighbors (cells (update_cells ops dt s) ! i) = neighbors (cells s ! i)"
      by (simp add: u changes_written_def commit_if_transport_def commit_cell_def)
  qed
qed

lemma conservation_run:
  assumes spec: "calculate_change ops = calculate_change_spec (flux_change flux)"
    and anti: "antisymmetric_flux flux"
    and closed: "closed_mesh (cells s)"
  shows "closed_mesh (cells ((update_cells ops dt ^^ n) s)) \<and>
         total_oil (cells ((update_cells ops dt ^^ n) s)) = total_oil (cells s)"
proof (induction n)
  case 0
  from closed show ?case by simp
next
  case (Suc n)
  then have c: "closed_mesh (cells ((update_cells ops dt ^^ n) s))"
    and t: "total_oil (cells ((update_cells ops dt ^^ n) s)) = total_oil (cells s)"
    by simp_all
  from conservation_step(2,3) [OF spec anti c, where dt = dt] t show ?case by simp
qed

text \<open>
  Claim C3.  \<open>calculate_change\<close> is as the specification describes it: the exchange with
  the neighbours through an antisymmetric kernel, scaled by \<open>dt\<close>.  In a run on a closed
  mesh, at every step (the step after \<open>n\<close> completed steps, for every \<open>n\<close>) the sum of
  \<open>oil_change\<close> over the transport-capable cells after the compute loop is 0, the commit
  loop leaves the total oil of these cells as it was before the step, and so the total is
  that of the start of the run.  Sums are of real numbers.
\<close>

theorem conservation:
  assumes spec: "calculate_change ops = calculate_change_spec (flux_change flux)"
    and anti: "antisymmetric_flux flux"
    and closed: "closed_mesh (cells s)"
  shows "total_change (cells (compute_phase ops dt ((update_cells ops dt ^^ n) s))) = 0 \<and>
         total_oil (cells (update_cells ops dt ((update_cells ops dt ^^ n) s))) =
           total_oil (cells ((update_cells ops dt ^^ n) s)) \<and>
         total_oil (cells ((update_cells ops dt ^^ n) s)) = total_oil (cells s)"
proof -
  from conservation_run [OF spec anti closed, where dt = dt and n = n]
  have c: "closed_mesh (cells ((update_cells ops dt ^^ n) s))"
    and t: "total_oil (cells ((update_cells ops dt ^^ n) s)) = total_oil (cells s)"
    by simp_all
  from conservation_step(1,2) [OF spec anti c, where dt = dt] t show ?thesis by simp
qed

lemma antisymmetric_difference: "antisymmetric_flux difference_flux"
  by (simp add: antisymmetric_flux_def difference_flux_def)

lemma closed_two_triangles: "closed_mesh (two_triangles a b)"
  by (simp add: closed_mesh_def two_triangles_def triangle_pair_def transport_capable_def nth_Cons less_Suc_eq
        numeral_3_eq_3 split: nat.split)

lemma demo_compute:
  "cells (compute_phase (demo_ops a b) dt (demo_state a b)) =
     [\<lparr>kind = Vertex, index = 0, area = 0, neighbors = [], oil_amount = 0, oil_change = 0\<rparr>,
      \<lparr>kind = Triangle, index = 1, area = a, neighbors = [2], oil_amount = 1, oil_change = - (dt / a)\<rparr>,
      \<lparr>kind = Triangle, index = 2, area = b, neighbors = [1], oil_amount = 0, oil_change = dt / a\<rparr>]"
proof -
  have "calculate_change (demo_ops a b) = calculate_change_spec (flux_change difference_flux)"
    by (simp add: demo_ops_def)
  from cells_compute_phase_spec [OF this time_t_reads_flux, of dt "demo_state a b"]
  show ?thesis
    by (simp add: demo_state_def changes_written_def two_triangles_def triangle_pair_def transport_capable_def
          flux_change_def difference_flux_def upt_rec)
qed

theorem conservation_witness:
  "calculate_change (demo_ops 1 2) = calculate_change_spec (flux_change difference_flux) \<and>
   antisymmetric_flux difference_flux \<and>
   closed_mesh (cells (demo_state 1 2)) \<and>
   map area (cells (demo_state 1 2)) = [0, 1, 2] \<and>
   map oil_change (cells (compute_phase (demo_ops 1 2) (1 / 4) (demo_state 1 2))) = [0, - 1 / 4, 1 / 4] \<and>
   total_change (cells (compute_phase (demo_ops 1 2) (1 / 4) (demo_state 1 2))) = 0 \<and>
   total_oil (cells (update_cells (demo_ops 1 2) (1 / 4) (demo_state 1 2))) = 1 \<and>
   total_oil (cells (demo_state 1 2)) = 1 \<and>
   total_change (cells (compute_phase (demo_ops 1 2) (1 / 4)
      ((update_cells (demo_ops 1 2) (1 / 4) ^^ 3) (demo_state 1 2)))) = 0 \<and>
   total_oil (cells ((update_cells (demo_ops 1 2) (1 / 4) ^^ 3) (demo_state 1 2))) = 1"
proof -
  have a: "calculate_change (demo_ops 1 2) = calculate_change_spec (flux_change difference_flux)"
    by (simp add: demo_ops_def)
  have c: "closed_mesh (cells (demo_state 1 2))"
    using closed_two_triangles by (simp add: demo_state_def)
  have o: "total_oil (cells (demo_state 1 2)) = 1"
    by (simp add: demo_state_def two_triangles_def triangle_pair_def total_oil_def transport_capable_def)
  have m: "map area (cells (demo_state 1 2)) = [0, 1, 2]"
    by (simp add: demo_state_def two_triangles_def triangle_pair_def)
  have v: "map oil_change (cells (compute_phase (demo_ops 1 2) (1 / 4) (demo_state 1 2))) = [0, - 1 / 4, 1 / 4]"
    by (simp add: demo_compute)
  note T0 = conservation [OF a antisymmetric_difference c, where dt = "1 / 4" and n = 0]
  note T3 = conservation [OF a antisymmetric_difference c, where dt = "1 / 4" and n = 3]
  from T0 o have 0: "total_change (cells (compute_phase (demo_ops 1 2) (1 / 4) (demo_state 1 2))) = 0"
      "total_oil (cells (update_cells (demo_ops 1 2) (1 / 4) (demo_state 1 2))) = 1"
    by simp_all
  from T3 o have 3: "total_change (cells (compute_phase (demo_ops 1 2) (1 / 4)
      ((update_cells (demo_ops 1 2) (1 / 4) ^^ 3) (demo_state 1 2)))) = 0"
      "total_oil (cells ((update_cells (demo_ops 1 2) (1 / 4) ^^ 3) (demo_state 1 2))) = 1"
    by simp_all
  from a antisymmetric_difference c m v 0 3 o show ?thesis by blast
qed

section \<open>The step loop and the reported series\<close>

lemma for_transport_preserves:
  assumes "\<And>i s. f (body i s) = f s"
  shows "f (for_transport body order s) = f s"
proof (induction order arbitrary: s)
  case Nil
  show ?case by simp
next
  case (Cons i order)
  show ?case using Cons.IH assms by (auto simp add: for_transport_Cons)
qed

lemma update_cells_preserves:
  assumes "\<And>(s :: 'a sim_scheme) x. f (s\<lparr>cells := x\<rparr>) = f s"
    and "\<And>(s :: 'a sim_scheme) x. f (s\<lparr>trace := x\<rparr>) = f s"
  shows "f (update_cells ops dt s) = f s"
proof -
  have 1: "f (call_calculate_change ops dt i s) = f s" for i and s :: "'a sim_scheme"
    using assms by (simp add: call_calculate_change_def)
  have 2: "f (commit i s) = f s" for i and s :: "'a sim_scheme"
    using assms by (simp add: commit_def)
  show ?thesis
    unfolding update_cells_def commit_phase_def compute_phase_def
    using for_transport_preserves [of f commit, OF 2] for_transport_preserves [of f "call_calculate_change ops dt", OF 1]
    by simp
qed

lemma step_body_fields:
  assumes "step_body ops wfreq fl dt cia k st = Inr st'"
  shows "current_time st' = py_round (current_time st + dt) 4"
    and "oil_area_time st' =
           AList.update (current_time st') (oil_in_area cia (cells st')) (oil_area_time st)"
proof -
  from assms have w: "wfreq \<noteq> 0" by (auto simp add: step_body_def split: if_splits)
  let ?st1 = "if int k mod wfreq = 0 then plot_call fl st else st"
  let ?st2 = "update_cells ops dt ?st1"
  have ct: "current_time ?st2 = current_time ?st1"
    by (rule update_cells_preserves) simp_all
  have ot: "oil_area_time ?st2 = oil_area_time ?st1"
    by (rule update_cells_preserves) simp_all
  have ct1: "current_time ?st1 = current_time st" by (simp add: plot_call_def)
  have ot1: "oil_area_time ?st1 = oil_area_time st" by (simp add: plot_call_def)
  from assms w have st': "st' = ?st2\<lparr>current_time := py_round (current_time ?st2 + dt) 4,
      oil_area_time := AList.update (py_round (current_time ?st2 + dt) 4)
        (oil_in_area cia (cells ?st2)) (oil_area_time ?st2)\<rparr>"
    by (simp add: step_body_def Let_def)
  show "current_time st' = py_round (current_time st + dt) 4"
    by (subst st') (simp add: ct ct1)
  show "oil_area_time st' =
           AList.update (current_time st') (oil_in_area cia (cells st')) (oil_area_time st)"
    by (subst (1 2 3) st') (simp add: ct ct1 ot ot1)
qed

lemma step_loop_series:
  "step_loop ops wfreq fl dt cia ks st = Inr st' \<Longrightarrow>
   oil_area_time st' =
     assign_all (aggregate_series ops dt cia (length ks) (cells st) (current_time st)) (oil_area_time st)"
proof (induction ks arbitrary: st)
  case Nil
  then show ?case by (simp add: assign_all_def)
next
  case (Cons k ks)
  from Cons.prems obtain st1 where b: "step_body ops wfreq fl dt cia k st = Inr st1"
    and l: "step_loop ops wfreq fl dt cia ks st1 = Inr st'"
    by (auto simp add: bind_Inr_iff)
  have c: "cells st1 = cells (update_cells ops dt \<lparr>cells = cells st, trace = []\<rparr>)"
    using step_body_cells [OF b] update_cells_cells_cong [of st "\<lparr>cells = cells st, trace = []\<rparr>" ops dt]
    by simp
  note f = step_body_fields [OF b]
  from Cons.IH [OF l] c f show ?case
    by (simp add: assign_all_def Let_def)
qed

lemma update_fresh:
  "k \<notin> fst ` set al \<Longrightarrow> AList.update k v al = al @ [(k, v)]"
  by (induction al) auto

lemma assign_all_distinct:
  "distinct (map fst xs) \<Longrightarrow> fst ` set xs \<inter> fst ` set d = {} \<Longrightarrow> assign_all xs d = d @ xs"
proof (induction xs arbitrary: d)
  case Nil
  show ?case by (simp add: assign_all_def)
next
  case (Cons x xs)
  obtain k v where x: "x = (k, v)" by (cases x)
  from Cons.prems x have fresh: "k \<notin> fst ` set d" by auto
  from Cons.prems x have "distinct (map fst xs)" and "fst ` set xs \<inter> fst ` set (d @ [(k, v)]) = {}"
    by auto
  from Cons.IH [OF this] have "assign_all xs (d @ [(k, v)]) = (d @ [(k, v)]) @ xs" .
  then show ?case using x fresh by (simp add: assign_all_def update_fresh)
qed

lemma for_transport_events:
  assumes "\<And>i s. trace (body i s) = trace s @ [ev i]"
  shows "\<exists>ps. trace (for_transport body order s) = trace s @ map ev ps"
proof (induction order arbitrary: s)
  case Nil
  show ?case by simp
next
  case (Cons i order)
  show ?case
  proof (cases "i < length (cells s) \<and> transport_capable (cells s ! i)")
    case True
    from Cons.IH [of "body i s"] obtain js where
      "trace (for_transport body order (body i s)) = trace (body i s) @ map ev js" by blast
    with assms [of i s] have "trace (for_transport body order (body i s)) = trace s @ map ev (i # js)"
      by simp
    moreover have "for_transport body (i # order) s = for_transport body order (body i s)"
      using True by (auto simp add: for_transport_Cons)
    ultimately show ?thesis by metis
  next
    case False
    then have "for_transport body (i # order) s = for_transport body order s"
      by (auto simp add: for_transport_Cons)
    with Cons.IH [of s] show ?thesis by simp
  qed
qed

lemma update_cells_events:
  "\<exists>evs. trace (update_cells ops dt s) = trace s @ evs \<and> list_all (\<lambda>e. e \<noteq> EvCellsWithinArea) evs"
proof -
  let ?s1 = "compute_phase ops dt s"
  obtain ps where 1: "trace ?s1 = trace s @ map EvCalcChange ps"
    unfolding compute_phase_def
    using for_transport_events [of "call_calculate_change ops dt" EvCalcChange "[0..<length (cells s)]" s]
    by (auto simp add: call_calculate_change_def)
  obtain js where 2: "trace (commit_phase ?s1) = trace ?s1 @ map EvCommit js"
    unfolding commit_phase_def
    using for_transport_events [of commit EvCommit "[0..<length (cells ?s1)]" ?s1]
    by (auto simp add: commit_def)
  have "list_all (\<lambda>e. e \<noteq> EvCellsWithinArea) (map EvCalcChange ps @ map EvCommit js)"
    by (auto simp add: list_all_iff)
  with 1 2 show ?thesis unfolding update_cells_def by (metis append.assoc)
qed

lemma step_body_events:
  assumes "step_body ops wfreq fl dt cia k st = Inr st'"
  shows "\<exists>evs. trace st' = trace st @ evs \<and> list_all (\<lambda>e. e \<noteq> EvCellsWithinArea) evs"
proof -
  from assms have w: "wfreq \<noteq> 0" by (auto simp add: step_body_def split: if_splits)
  let ?st1 = "if int k mod wfreq = 0 then plot_call fl st else st"
  obtain evs where e: "trace (update_cells ops dt ?st1) = trace ?st1 @ evs"
      "list_all (\<lambda>e. e \<noteq> EvCellsWithinArea) evs"
    using update_cells_events [of ops dt ?st1] by blast
  obtain p where p: "trace ?st1 = trace st @ p" "list_all (\<lambda>e. e \<noteq> EvCellsWithinArea) p"
    by (cases "int k mod wfreq = 0") (simp_all add: plot_call_def)
  from assms w have st': "st' = (update_cells ops dt ?st1)\<lparr>current_time := py_round (current_time (update_cells ops dt ?st1) + dt) 4,
      oil_area_time := AList.update (py_round (current_time (update_cells ops dt ?st1) + dt) 4)
        (oil_in_area cia (cells (update_cells ops dt ?st1))) (oil_area_time (update_cells ops dt ?st1))\<rparr>"
    by (simp add: step_body_def Let_def)
  have "trace st' = trace (update_cells ops dt ?st1)"
    by (subst st') simp
  with e p have "trace st' = trace st @ (p @ evs) \<and> list_all (\<lambda>e. e \<noteq> EvCellsWithinArea) (p @ evs)"
    by simp
  then show ?thesis by blast
qed

lemma step_loop_events:
  "step_loop ops wfreq fl dt cia ks st = Inr st' \<Longrightarrow>
   \<exists>evs. trace st' = trace st @ evs \<and> list_all (\<lambda>e. e \<noteq> EvCellsWithinArea) evs"
proof (induction ks arbitrary: st)
  case Nil
  then show ?case by simp
next
  case (Cons k ks)
  from Cons.prems obtain st1 where b: "step_body ops wfreq fl dt cia k st = Inr st1"
    and l: "step_loop ops wfreq fl dt cia ks st1 = Inr st'"
    by (auto simp add: bind_Inr_iff)
  from step_body_events [OF b] obtain e1 where
    1: "trace st1 = trace st @ e1" "list_all (\<lambda>e. e \<noteq> EvCellsWithinArea) e1" by blast
  from Cons.IH [OF l] obtain e2 where
    2: "trace st' = trace st1 @ e2" "list_all (\<lambda>e. e \<noteq> EvCellsWithinArea) e2" by blast
  from 1 2 have "trace st' = trace st @ (e1 @ e2) \<and> list_all (\<lambda>e. e \<noteq> EvCellsWithinArea) (e1 @ e2)"
    by simp
  then show ?case by blast
qed

lemma seed_or_restore_cases:
  assumes "seed_or_restore ops env a s = Inr (t, s1)"
  shows "(\<exists>p first rest cs.
            restartFile a = Some p \<and> p \<noteq> [] \<and> readlines env p = Inr (first # rest) \<and>
            float_of_str env first = Some t \<and> restore_lines env rest (cells s) = Inr cs \<and>
            s1 = s\<lparr>cells := cs, trace := trace s @ [EvReadRestart p]\<rparr>) \<or>
         ((restartFile a = None \<or> restartFile a = Some []) \<and> t = start_time a \<and>
            s1 = s\<lparr>cells := initial_oil_distribution ops (cells s) (start_point a),
                   trace := trace s @ [EvInitialOil]\<rparr>)"
proof (cases "restartFile a")
  case None
  with assms show ?thesis by (auto simp add: seed_or_restore_def)
next
  case (Some p)
  show ?thesis
  proof (cases p)
    case Nil
    with Some assms show ?thesis by (auto simp add: seed_or_restore_def)
  next
    case (Cons c path)
    with Some assms obtain lines where r: "readlines env p = Inr lines"
      and rest: "(case lines of [] \<Rightarrow> Inl IndexError
             | first # rest \<Rightarrow>
                 (case float_of_str env first of
                    None \<Rightarrow> Inl (ValueError ''could not convert string to float'')
                  | Some t \<Rightarrow>
                      bind (restore_lines env rest (cells s)) (\<lambda>cs.
                        Inr (t, s\<lparr>cells := cs, trace := trace s @ [EvReadRestart p]\<rparr>)))) = Inr (t, s1)"
      by (auto simp add: seed_or_restore_def bind_Inr_iff)
    from rest obtain first rest' where lines: "lines = first # rest'" by (cases lines) auto
    from rest lines obtain t' where fl: "float_of_str env first = Some t'"
      by (cases "float_of_str env first") auto
    from rest lines fl obtain cs where "restore_lines env rest' (cells s) = Inr cs"
      and "t' = t" and "s1 = s\<lparr>cells := cs, trace := trace s @ [EvReadRestart p]\<rparr>"
      by (auto simp add: bind_Inr_iff)
    with Some Cons r lines fl show ?thesis by auto
  qed
qed

lemma seed_or_restore_events:
  assumes "seed_or_restore ops env a s = Inr (t, s1)"
  shows "\<exists>e. trace s1 = trace s @ [e] \<and> setup_event e"
  using seed_or_restore_cases [OF assms] by auto

lemma prepare_events:
  assumes "prepare ops env a = Inr (s1, t0, dt)"
  shows "list_all setup_event (trace s1)"
proof -
  from assms obtain cells0 t where m: "Mesh ops (mesh_path a) = Inr cells0"
    and s: "seed_or_restore ops env a
        (for_transport (call_calculate ops) [0..<length cells0] \<lparr>cells = cells0, trace = []\<rparr>) = Inr (t, s1)"
    by (auto simp add: prepare_def bind_Inr_iff Let_def split: prod.splits)
  let ?s0 = "for_transport (call_calculate ops) [0..<length cells0] \<lparr>cells = cells0, trace = []\<rparr>"
  obtain ps where "trace ?s0 = map EvCalculate ps"
    using for_transport_events [of "call_calculate ops" EvCalculate "[0..<length cells0]"
        "\<lparr>cells = cells0, trace = []\<rparr>"]
    by (auto simp add: call_calculate_def)
  moreover from seed_or_restore_events [OF s] obtain e where "trace s1 = trace ?s0 @ [e]" "setup_event e"
    by blast
  ultimately show ?thesis by (auto simp add: list_all_iff)
qed

lemma finish_Inr:
  assumes "finish env a st = Inr r"
  shows "0 < intervals a" and "returned r = oil_area_time st" and "final_cells r = cells st"
    and "restart_written r = restart_text env (end_time a) (cells st)"
    and "events r = trace st @ [EvPlot (fast a = 1) (current_time st), EvWriteRestart] @
           (if write_frequency a \<noteq> 0 then [EvMakeVideo] else [])"
  using assms by (auto simp add: finish_def plot_call_def Let_def split: if_splits)

lemma find_and_plot_Inr:
  assumes "find_and_plot ops env a = Inr r"
  obtains s1 t0 dt st where "prepare ops env a = Inr (s1, t0, dt)"
    and "stepping ops a (s1, t0, dt) = Inr st" and "finish env a st = Inr r"
  using assms by (auto simp add: find_and_plot_def bind_Inr_iff)

lemma find_and_plot_parts:
  assumes r: "find_and_plot ops env a = Inr r" and p: "prepare ops env a = Inr (s1, t0, dt)"
  shows "\<exists>post. events r = trace s1 @ EvCellsWithinArea # post \<and>
           list_all (\<lambda>e. e \<noteq> EvCellsWithinArea) post"
    and "returned r =
           assign_all (aggregate_series ops dt (area_of_interest ops a (cells s1))
                         (nat (intervals a)) (cells s1) t0) []"
proof -
  from r p obtain st where s: "stepping ops a (s1, t0, dt) = Inr st" and f: "finish env a st = Inr r"
    by (auto simp add: find_and_plot_def bind_Inr_iff)
  let ?cia = "area_of_interest ops a (cells s1)"
  let ?st0 = "\<lparr>cells = cells s1, trace = trace s1 @ [EvCellsWithinArea],
                current_time = t0, oil_area_time = []\<rparr>"
  let ?series = "aggregate_series ops dt ?cia (nat (intervals a)) (cells s1) t0"
  from s have l: "step_loop ops (write_frequency a) (fast a) dt ?cia [0..<nat (intervals a)] ?st0 = Inr st"
    by (simp add: stepping_def Let_def)
  from step_loop_series [OF l] have ser: "oil_area_time st = assign_all ?series []" by simp
  from step_loop_events [OF l] obtain evs where
    evs: "trace st = (trace s1 @ [EvCellsWithinArea]) @ evs" "list_all (\<lambda>e. e \<noteq> EvCellsWithinArea) evs"
    by auto
  let ?post = "evs @ [EvPlot (fast a = 1) (current_time st), EvWriteRestart] @
           (if write_frequency a \<noteq> 0 then [EvMakeVideo] else [])"
  have "events r = trace s1 @ EvCellsWithinArea # ?post"
    using finish_Inr(5) [OF f] evs(1) by simp
  moreover have "list_all (\<lambda>e. e \<noteq> EvCellsWithinArea) ?post" using evs(2) by simp
  ultimately show "\<exists>post. events r = trace s1 @ EvCellsWithinArea # post \<and>
           list_all (\<lambda>e. e \<noteq> EvCellsWithinArea) post" by blast
  show "returned r = assign_all ?series []" using finish_Inr(2) [OF f] ser by simp
qed

text \<open>
  Claim C4, as amended.  In a run of \<open>find_and_plot\<close> that returns, the trace holds the
  call of \<open>cells_within_area\<close> once: after the events of the set-up stages and before
  every event of the step loop.  The returned dictionary is the result of assigning, for
  the steps \<open>1..intervals\<close> in order, the aggregate over that fixed cell set measured
  right after the step's commit loop to the rounded time after the step; when these
  rounded times are pairwise distinct it holds exactly one entry per step, in step order.
\<close>

theorem reported_series:
  assumes "find_and_plot ops env a = Inr r"
  shows "\<exists>s1 t0 dt post.
           prepare ops env a = Inr (s1, t0, dt) \<and>
           events r = trace s1 @ EvCellsWithinArea # post \<and>
           list_all setup_event (trace s1) \<and>
           list_all (\<lambda>e. e \<noteq> EvCellsWithinArea) post \<and>
           returned r =
             assign_all (aggregate_series ops dt (area_of_interest ops a (cells s1))
                           (nat (intervals a)) (cells s1) t0) [] \<and>
           (distinct (map fst (aggregate_series ops dt (area_of_interest ops a (cells s1))
                                 (nat (intervals a)) (cells s1) t0)) \<longrightarrow>
              returned r =
                aggregate_series ops dt (area_of_interest ops a (cells s1))
                  (nat (intervals a)) (cells s1) t0)"
proof -
  from assms obtain s1 t0 dt st where p: "prepare ops env a = Inr (s1, t0, dt)"
    by (rule find_and_plot_Inr)
  let ?series = "aggregate_series ops dt (area_of_interest ops a (cells s1)) (nat (intervals a)) (cells s1) t0"
  note parts = find_and_plot_parts [OF assms p]
  from parts(1) obtain post where 1: "events r = trace s1 @ EvCellsWithinArea # post"
    and 2: "list_all (\<lambda>e. e \<noteq> EvCellsWithinArea) post" by blast
  have 4: "returned r = ?series" if "distinct (map fst ?series)"
    using parts(2) assign_all_distinct [OF that, of "[]"] by simp
  from p 1 2 parts(2) 4 prepare_events [OF p] show ?thesis by blast
qed

lemma find_and_plot_total:
  assumes p: "prepare ops env a = Inr (s1, t0, dt)" and w: "write_frequency a \<noteq> 0" and n: "0 < intervals a"
  shows "\<exists>r. find_and_plot ops env a = Inr r"
proof -
  from step_loop_total [OF w, of ops "fast a" dt "area_of_interest ops a (cells s1)" "[0..<nat (intervals a)]"
      "\<lparr>cells = cells s1, trace = trace s1 @ [EvCellsWithinArea], current_time = t0, oil_area_time = []\<rparr>"]
  obtain st where "stepping ops a (s1, t0, dt) = Inr st"
    unfolding stepping_def by (auto simp add: Let_def)
  moreover from n obtain r where "finish env a st = Inr r" by (simp add: finish_def Let_def)
  ultimately show ?thesis using p by (simp add: find_and_plot_def)
qed

lemma demo_prepare:
  assumes "t_end \<noteq> 0" and "n \<noteq> 0"
  shows "prepare (demo_ops a b) demo_env (demo_args t_end n None) =
     Inr (\<lparr>cells = two_triangles a b, trace = [EvCalculate 1, EvCalculate 2, EvInitialOil]\<rparr>,
          0, py_round (t_end / of_int n) 6)"
  using assms
  by (simp add: prepare_def demo_ops_def demo_args_def two_triangles_def triangle_pair_def
        for_transport_def call_calculate_def transport_capable_def seed_or_restore_def time_step_def
        upt_rec)

lemma demo_update:
  assumes "cells s = triangle_pair a b u v"
  shows "cells (update_cells (demo_ops a b) dt s) =
         triangle_pair a b (u - dt * (u / a - v / b)) (v + dt * (u / a - v / b))"
proof -
  have "calculate_change (demo_ops a b) = calculate_change_spec (flux_change difference_flux)"
    by (simp add: demo_ops_def)
  from cells_compute_phase_spec [OF this time_t_reads_flux, of dt s]
  show ?thesis
    by (simp add: assms update_cells_def cells_commit_phase changes_written_def triangle_pair_def
          transport_capable_def flux_change_def difference_flux_def upt_rec
          commit_if_transport_def commit_cell_def algebra_simps)
qed

lemma demo_area: "area_of_interest (demo_ops a b) args cs = [1]"
  by (simp add: area_of_interest_def demo_ops_def)

lemma demo_oil: "oil_in_area [Suc 0] (triangle_pair a b u v) = u"
  by (simp add: oil_in_area_def triangle_pair_def)

lemma demo_series_2:
  "aggregate_series (demo_ops a b) dt [1] (Suc (Suc 0)) (triangle_pair a b u v) t =
     [(py_round (t + dt) 4, u - dt * (u / a - v / b)),
      (py_round (py_round (t + dt) 4 + dt) 4,
       u - dt * (u / a - v / b) -
       dt * ((u - dt * (u / a - v / b)) / a - (v + dt * (u / a - v / b)) / b))]"
  by (simp add: demo_update demo_oil Let_def)

lemma round_small_dt: "py_round (1 / 100000) 6 = 1 / 100000"
  by (simp add: py_round_def round_half_even_def Let_def)

lemma round_small_time: "py_round (1 / 100000) 4 = 0"
  by (simp add: py_round_def round_half_even_def Let_def)

lemma round_unit: "py_round 1 6 = 1" "py_round 1 4 = 1" "py_round 2 4 = 2"
  by (simp_all add: py_round_def round_half_even_def Let_def)

text \<open>
  Claim C4 as stated fails when two steps round to the same time: from time 0 to
  \<open>1/50000\<close> in two steps, \<open>dt\<close> is \<open>1/100000\<close> and the time after either step rounds
  (4 decimals) to 0.  The dictionary then holds one entry, with the aggregate of the
  second step, where the specification's series has two, with different aggregates.
\<close>

theorem reported_series_counterexample:
  "map_sum id returned (find_and_plot (demo_ops 1 2) demo_env (demo_args (1 / 50000) 2 None)) =
     Inr [(0, 19999600003 / 20000000000)] \<and>
   prepare (demo_ops 1 2) demo_env (demo_args (1 / 50000) 2 None) =
     Inr (\<lparr>cells = two_triangles 1 2, trace = [EvCalculate 1, EvCalculate 2, EvInitialOil]\<rparr>,
          0, 1 / 100000) \<and>
   area_of_interest (demo_ops 1 2) (demo_args (1 / 50000) 2 None) (two_triangles 1 2) = [1] \<and>
   aggregate_series (demo_ops 1 2) (1 / 100000) [1] 2 (two_triangles 1 2) 0 =
     [(0, 99999 / 100000), (0, 19999600003 / 20000000000)]"
proof -
  let ?a = "demo_args (1 / 50000) 2 None"
  let ?s1 = "\<lparr>cells = two_triangles 1 2, trace = [EvCalculate 1, EvCalculate 2, EvInitialOil]\<rparr>"
  have p: "prepare (demo_ops 1 2) demo_env ?a = Inr (?s1, 0, 1 / 100000)"
    using demo_prepare [of "1 / 50000" 2 1 2] by (simp add: round_small_dt)
  have "write_frequency ?a \<noteq> 0" and "0 < intervals ?a" by (simp_all add: demo_args_def)
  from find_and_plot_total [OF p this] obtain r where
    r: "find_and_plot (demo_ops 1 2) demo_env ?a = Inr r" by blast
  have n: "nat (intervals ?a) = Suc (Suc 0)" by (simp add: demo_args_def)
  have two: "(2::nat) = Suc (Suc 0)" by simp
  have ser: "aggregate_series (demo_ops 1 2) (1 / 100000) [1] (Suc (Suc 0)) (two_triangles 1 2) 0 =
          [(0, 99999 / 100000), (0, 19999600003 / 20000000000)]"
    unfolding two_triangles_def demo_series_2 by (simp add: round_small_time)
  from find_and_plot_parts(2) [OF r p]
  have "returned r = assign_all (aggregate_series (demo_ops 1 2) (1 / 100000) [1]
      (Suc (Suc 0)) (two_triangles 1 2) 0) []"
    by (simp only: n demo_area sim.simps)
  then have "returned r = [(0, 19999600003 / 20000000000)]"
    by (simp only: ser) (simp add: assign_all_def)
  with r have "map_sum id returned (find_and_plot (demo_ops 1 2) demo_env ?a) =
     Inr [(0, 19999600003 / 20000000000)]"
    by simp
  with p ser demo_area [of 1 2 ?a "two_triangles 1 2"] show ?thesis by (simp only: two)
qed

theorem reported_series_witness:
  "\<exists>r. find_and_plot (demo_ops 1 2) demo_env (demo_args 2 2 None) = Inr r \<and>
        returned r = [(1, 0), (2, 1 / 2)] \<and>
        (\<exists>post. events r = [EvCalculate 1, EvCalculate 2, EvInitialOil] @ EvCellsWithinArea # post \<and>
                list_all (\<lambda>e. e \<noteq> EvCellsWithinArea) post)"
proof -
  let ?a = "demo_args 2 2 None"
  let ?s1 = "\<lparr>cells = two_triangles 1 2, trace = [EvCalculate 1, EvCalculate 2, EvInitialOil]\<rparr>"
  have p: "prepare (demo_ops 1 2) demo_env ?a = Inr (?s1, 0, 1)"
    using demo_prepare [of 2 2 1 2] by (simp add: round_unit)
  have "write_frequency ?a \<noteq> 0" and "0 < intervals ?a" by (simp_all add: demo_args_def)
  from find_and_plot_total [OF p this] obtain r where
    r: "find_and_plot (demo_ops 1 2) demo_env ?a = Inr r" by blast
  have n: "nat (intervals ?a) = Suc (Suc 0)" by (simp add: demo_args_def)
  have ser: "aggregate_series (demo_ops 1 2) 1 [1] (Suc (Suc 0)) (two_triangles 1 2) 0 =
          [(1, 0), (2, 1 / 2)]"
    unfolding two_triangles_def demo_series_2 by (simp add: round_unit)
  from reported_series [OF r] p obtain post where
    e: "events r = trace ?s1 @ EvCellsWithinArea # post" "list_all (\<lambda>e. e \<noteq> EvCellsWithinArea) post"
    and d: "distinct (map fst (aggregate_series (demo_ops 1 2) 1 (area_of_interest (demo_ops 1 2) ?a (cells ?s1))
                                 (nat (intervals ?a)) (cells ?s1) 0)) \<longrightarrow>
              returned r =
                aggregate_series (demo_ops 1 2) 1 (area_of_interest (demo_ops 1 2) ?a (cells ?s1))
                  (nat (intervals ?a)) (cells ?s1) 0"
    by auto
  from d have "returned r = [(1, 0), (2, 1 / 2)]"
    by (simp only: n demo_area sim.simps ser) simp
  with r e show ?thesis by auto
qed

section \<open>Restoring from a restart file\<close>

lemma list_index_range: "list_index n i = Some j \<Longrightarrow> j < n"
  by (auto simp add: list_index_def Let_def split: if_splits)

lemma restore_line_Inr:
  assumes "restore_line env cs line = Inr cs'"
  shows "\<exists>j v. parse_line env (length cs) line = Some (j, v) \<and> j < length cs \<and>
           cs' = cs[j := (cs ! j)\<lparr>oil_amount := v\<rparr>]"
proof -
  from assms obtain index_s amount_s where sp: "split_on CHR '';'' line = [index_s, amount_s]"
    by (auto simp add: restore_line_def split: list.splits)
  from assms sp obtain v where v: "float_of_str env amount_s = Some v"
    by (cases "float_of_str env amount_s") (auto simp add: restore_line_def)
  from assms sp v obtain i where i: "py_int index_s = Some i"
    by (cases "py_int index_s") (auto simp add: restore_line_def)
  from assms sp v i obtain j where j: "list_index (length cs) i = Some j"
    by (cases "list_index (length cs) i") (auto simp add: restore_line_def)
  from assms sp v i j have "cs' = cs[j := (cs ! j)\<lparr>oil_amount := v\<rparr>]"
    by (simp add: restore_line_def)
  moreover have "parse_line env (length cs) line = Some (j, v)"
    using sp v i j by (simp add: parse_line_def)
  ultimately show ?thesis using list_index_range [OF j] by blast
qed

lemma restored_amount_Cons:
  "restored_amount ((j0, v0) # entries) j old =
     restored_amount entries j (if j = j0 then v0 else old)"
  by (simp add: restored_amount_def map_add_def split: option.splits)

lemma restore_lines_spec:
  "restore_lines env lines cs = Inr cs' \<Longrightarrow>
   length cs' = length cs \<and>
   (\<forall>j < length cs. cs' ! j =
      (cs ! j)\<lparr>oil_amount := restored_amount (restart_entries env (length cs) lines) j (oil_amount (cs ! j))\<rparr>)"
proof (induction lines arbitrary: cs)
  case Nil
  then show ?case by (simp add: restart_entries_def restored_amount_def map_filter_simps)
next
  case (Cons line rest)
  from Cons.prems obtain cs1 where 1: "restore_line env cs line = Inr cs1"
    and 2: "restore_lines env rest cs1 = Inr cs'"
    by (auto simp add: bind_Inr_iff)
  from restore_line_Inr [OF 1] obtain j0 v0 where p: "parse_line env (length cs) line = Some (j0, v0)"
    and j0: "j0 < length cs" and cs1: "cs1 = cs[j0 := (cs ! j0)\<lparr>oil_amount := v0\<rparr>]" by blast
  have len: "length cs1 = length cs" using cs1 by simp
  from Cons.IH [OF 2] len have l': "length cs' = length cs"
    and ih: "\<forall>j < length cs. cs' ! j =
      (cs1 ! j)\<lparr>oil_amount := restored_amount (restart_entries env (length cs) rest) j (oil_amount (cs1 ! j))\<rparr>"
    by simp_all
  have e: "restart_entries env (length cs) (line # rest) = (j0, v0) # restart_entries env (length cs) rest"
    using p by (simp add: restart_entries_def map_filter_simps)
  have "cs' ! j = (cs ! j)\<lparr>oil_amount :=
      restored_amount (restart_entries env (length cs) (line # rest)) j (oil_amount (cs ! j))\<rparr>"
    if j: "j < length cs" for j
  proof (cases "j = j0")
    case True
    with ih j cs1 show ?thesis by (simp add: e restored_amount_Cons)
  next
    case False
    with ih j cs1 show ?thesis by (simp add: e restored_amount_Cons)
  qed
  with l' show ?case by blast
qed

lemma restore_line_parsed:
  assumes "parse_line env (length cs) line = Some (j, v)"
  shows "restore_line env cs line = Inr (cs[j := (cs ! j)\<lparr>oil_amount := v\<rparr>])"
proof -
  from assms obtain index_s amount_s where sp: "split_on CHR '';'' line = [index_s, amount_s]"
    by (auto simp add: parse_line_def split: list.splits)
  from assms sp obtain i where i: "py_int index_s = Some i"
    by (cases "py_int index_s") (auto simp add: parse_line_def)
  from assms sp i obtain v' where v: "float_of_str env amount_s = Some v'"
    by (cases "float_of_str env amount_s") (auto simp add: parse_line_def)
  from assms sp i v have "list_index (length cs) i = Some j" and "v' = v"
    by (auto simp add: parse_line_def)
  with sp i v show ?thesis by (simp add: restore_line_def)
qed

lemma restore_lines_total:
  "list_all (\<lambda>l. parse_line env (length cs) l \<noteq> None) lines \<Longrightarrow>
   \<exists>cs'. restore_lines env lines cs = Inr cs'"
proof (induction lines arbitrary: cs)
  case Nil
  show ?case by simp
next
  case (Cons line rest)
  from Cons.prems obtain j v where p: "parse_line env (length cs) line = Some (j, v)" by auto
  let ?cs1 = "cs[j := (cs ! j)\<lparr>oil_amount := v\<rparr>]"
  from Cons.prems have "list_all (\<lambda>l. parse_line env (length ?cs1) l \<noteq> None) rest" by simp
  from Cons.IH [OF this] restore_line_parsed [OF p] show ?case by simp
qed

text \<open>
  Claim C5.  With a restart file (a non-empty path), a successful restore takes the resume
  time from the first line, records the read of the file and no call of
  \<open>initial_oil_distribution\<close>, and leaves every cell as it was but for its
  \<open>oil_amount\<close>, which is the amount of the last line naming that cell (the old amount
  if no line names it); and the restore succeeds whenever the file can be read, its first
  line is a float and every further line is well formed.  Without a restart file the
  outcome is the call of \<open>initial_oil_distribution\<close> on the start point, at the given
  start time, whatever the files hold.
\<close>

theorem restore_or_seed:
  "(restartFile a = Some p \<and> p \<noteq> [] \<and> seed_or_restore ops env a s = Inr (t, s1) \<longrightarrow>
      (\<exists>first rest.
         readlines env p = Inr (first # rest) \<and> float_of_str env first = Some t \<and>
         trace s1 = trace s @ [EvReadRestart p] \<and>
         length (cells s1) = length (cells s) \<and>
         (\<forall>j < length (cells s). cells s1 ! j =
            (cells s ! j)\<lparr>oil_amount :=
               restored_amount (restart_entries env (length (cells s)) rest) j
                 (oil_amount (cells s ! j))\<rparr>))) \<and>
   (restartFile a = Some p \<and> p \<noteq> [] \<and> readlines env p = Inr (line0 # lines) \<and>
    float_of_str env line0 = Some t0 \<and>
    list_all (\<lambda>l. parse_line env (length (cells s)) l \<noteq> None) lines \<longrightarrow>
      (\<exists>s'. seed_or_restore ops env a s = Inr (t0, s'))) \<and>
   (restartFile a = None \<or> restartFile a = Some [] \<longrightarrow>
      seed_or_restore ops env a s =
        Inr (start_time a,
             s\<lparr>cells := initial_oil_distribution ops (cells s) (start_point a),
               trace := trace s @ [EvInitialOil]\<rparr>))"
proof (intro conjI impI)
  assume h: "restartFile a = Some p \<and> p \<noteq> [] \<and> readlines env p = Inr (line0 # lines) \<and>
    float_of_str env line0 = Some t0 \<and>
    list_all (\<lambda>l. parse_line env (length (cells s)) l \<noteq> None) lines"
  then obtain c path where p: "p = c # path" by (cases p) auto
  from h restore_lines_total [of env "cells s" lines] obtain cs where
    "restore_lines env lines (cells s) = Inr cs" by blast
  with h p show "\<exists>s'. seed_or_restore ops env a s = Inr (t0, s')"
    by (simp add: seed_or_restore_def)
next
  assume "restartFile a = None \<or> restartFile a = Some []"
  then show "seed_or_restore ops env a s =
        Inr (start_time a,
             s\<lparr>cells := initial_oil_distribution ops (cells s) (start_point a),
               trace := trace s @ [EvInitialOil]\<rparr>)"
    by (auto simp add: seed_or_restore_def)
next
  assume a: "restartFile a = Some p \<and> p \<noteq> [] \<and> seed_or_restore ops env a s = Inr (t, s1)"
  then have "seed_or_restore ops env a s = Inr (t, s1)" by simp
  from seed_or_restore_cases [OF this] a obtain first rest cs where
    r: "readlines env p = Inr (first # rest)" and f: "float_of_str env first = Some t"
    and l: "restore_lines env rest (cells s) = Inr cs"
    and s1: "s1 = s\<lparr>cells := cs, trace := trace s @ [EvReadRestart p]\<rparr>"
    by auto
  from restore_lines_spec [OF l] s1 r f
  show "\<exists>first rest.
         readlines env p = Inr (first # rest) \<and> float_of_str env first = Some t \<and>
         trace s1 = trace s @ [EvReadRestart p] \<and>
         length (cells s1) = length (cells s) \<and>
         (\<forall>j < length (cells s). cells s1 ! j =
            (cells s ! j)\<lparr>oil_amount :=
               restored_amount (restart_entries env (length (cells s)) rest) j
                 (oil_amount (cells s ! j))\<rparr>)"
    by auto
qed


lemmas parse_simps = py_int_def strip_def is_space_def py_nat_def is_digit_def digits_value_def
  list_index_def

lemma demo_restore:
  "seed_or_restore (demo_ops a b) demo_env (demo_args 4 2 (Some ''restart.txt''))
     \<lparr>cells = two_triangles a b, trace = tr\<rparr> =
   Inr (2, \<lparr>cells = triangle_pair a b 5 3, trace = tr @ [EvReadRestart ''restart.txt'']\<rparr>)"
  by (simp add: seed_or_restore_def demo_args_def demo_env_def restore_line_def parse_simps
        two_triangles_def triangle_pair_def)

theorem restore_or_seed_witness:
  "seed_or_restore (demo_ops 1 2) demo_env (demo_args 4 2 (Some ''restart.txt''))
     \<lparr>cells = two_triangles 1 2, trace = []\<rparr> =
     Inr (2, \<lparr>cells = triangle_pair 1 2 5 3, trace = [EvReadRestart ''restart.txt'']\<rparr>) \<and>
   readlines demo_env ''restart.txt'' =
     Inr ((''2'' @ [CHR 0x0A]) # [''1;5'' @ [CHR 0x0A], ''2;3'' @ [CHR 0x0A]]) \<and>
   float_of_str demo_env (''2'' @ [CHR 0x0A]) = Some 2 \<and>
   list_all (\<lambda>l. parse_line demo_env 3 l \<noteq> None) [''1;5'' @ [CHR 0x0A], ''2;3'' @ [CHR 0x0A]] \<and>
   restart_entries demo_env 3 [''1;5'' @ [CHR 0x0A], ''2;3'' @ [CHR 0x0A]] = [(1, 5), (2, 3)] \<and>
   seed_or_restore (demo_ops 1 2) demo_env (demo_args 4 2 None)
     \<lparr>cells = two_triangles 1 2, trace = []\<rparr> =
     Inr (0, \<lparr>cells = two_triangles 1 2, trace = [EvInitialOil]\<rparr>)"
proof -
  let ?s = "\<lparr>cells = two_triangles 1 2, trace = []\<rparr>"
  let ?rest = "[''1;5'' @ [CHR 0x0A], ''2;3'' @ [CHR 0x0A]]"
  have e: "restart_entries demo_env 3 ?rest = [(1, 5), (2, 3)]"
    by (simp add: restart_entries_def map_filter_simps parse_line_def demo_env_def parse_simps)
  have r: "readlines demo_env ''restart.txt'' = Inr ((''2'' @ [CHR 0x0A]) # ?rest)"
    and f: "float_of_str demo_env (''2'' @ [CHR 0x0A]) = Some 2"
    by (simp_all add: demo_env_def parse_simps)
  have w: "list_all (\<lambda>l. parse_line demo_env 3 l \<noteq> None) ?rest"
    by (simp add: parse_line_def demo_env_def parse_simps)
  have len: "length (cells ?s) = 3" by (simp add: two_triangles_def triangle_pair_def)
  have given: "restartFile (demo_args 4 2 (Some ''restart.txt'')) = Some ''restart.txt''"
    and nonempty: "''restart.txt'' \<noteq> []"
    by (simp_all add: demo_args_def)
  note T = restore_or_seed [of "demo_args 4 2 (Some ''restart.txt'')" "''restart.txt''" "demo_ops 1 2"
      demo_env ?s 2 "\<lparr>cells = triangle_pair 1 2 5 3, trace = [EvReadRestart ''restart.txt'']\<rparr>"
      "''2'' @ [CHR 0x0A]" ?rest 2]
  from T given nonempty r f w len
  have "\<exists>s'. seed_or_restore (demo_ops 1 2) demo_env (demo_args 4 2 (Some ''restart.txt'')) ?s =
      Inr (2, s')"
    by simp
  have n: "restartFile (demo_args 4 2 None) = None \<or> restartFile (demo_args 4 2 None) = Some []"
    by (simp add: demo_args_def)
  have "seed_or_restore (demo_ops 1 2) demo_env (demo_args 4 2 None) ?s =
     Inr (0, \<lparr>cells = two_triangles 1 2, trace = [EvInitialOil]\<rparr>)"
    using n restore_or_seed [of "demo_args 4 2 None" "[]" "demo_ops 1 2" demo_env ?s]
    by (simp add: demo_args_def demo_ops_def)
  with e r f w demo_restore [of 1 2 "[]"] show ?thesis by simp
qed

lemma restore_lines_append:
  "restore_lines env (xs @ ys) cs = bind (restore_lines env xs cs) (restore_lines env ys)"
proof (induction xs arbitrary: cs)
  case Nil
  show ?case by simp
next
  case (Cons x xs)
  show ?case by (cases "restore_line env cs x") (simp_all add: Cons.IH)
qed

lemma list_index_outside:
  "int n \<le> i \<or> i < - int n \<Longrightarrow> list_index n i = None"
  by (auto simp add: list_index_def Let_def)

text \<open>
  Claim C6, as amended.  A line of the restart file that is well formed but whose index
  is out of range for the mesh (at least the number of cells, or below its negative) is
  not skipped: restoring that line raises \<open>IndexError\<close>, so does the restore of a file
  that holds it after lines that restored, and so does the restore stage of
  \<open>find_and_plot\<close>; no cell list is returned.
\<close>

theorem restore_out_of_range:
  assumes "split_on CHR '';'' line = [index_s, amount_s]"
    and "py_int index_s = Some i"
    and "float_of_str env amount_s = Some v"
    and "int (length cs0) \<le> i \<or> i < - int (length cs0)"
  shows "restore_line env cs0 line = Inl IndexError \<and>
         (restore_lines env before cs0 = Inr cs \<longrightarrow>
            restore_lines env (before @ line # after) cs0 = Inl IndexError) \<and>
         (restartFile a = Some p \<and> p \<noteq> [] \<and> readlines env p = Inr (first # before @ line # after) \<and>
          float_of_str env first = Some t \<and> restore_lines env before (cells s) = Inr cs \<and>
          length (cells s) = length cs0 \<longrightarrow>
            seed_or_restore ops env a s = Inl IndexError)"
proof -
  have line: "restore_line env cs' line = Inl IndexError" if "length cs' = length cs0" for cs'
    using assms that list_index_outside [of "length cs0" i] by (simp add: restore_line_def)
  have 1: "restore_line env cs0 line = Inl IndexError" by (rule line) simp
  have 2: "restore_lines env (before @ line # after) cs0' = Inl IndexError"
    if b: "restore_lines env before cs0' = Inr cs" and l: "length cs0' = length cs0" for cs0'
  proof -
    from restore_lines_spec [OF b] l have "length cs = length cs0" by simp
    from line [OF this] b show ?thesis by (simp add: restore_lines_append)
  qed
  have 3: "seed_or_restore ops env a s = Inl IndexError"
    if h: "restartFile a = Some p \<and> p \<noteq> [] \<and> readlines env p = Inr (first # before @ line # after) \<and>
          float_of_str env first = Some t \<and> restore_lines env before (cells s) = Inr cs \<and>
          length (cells s) = length cs0"
  proof -
    from h obtain c path where p: "p = c # path" by (cases p) auto
    from h have "restore_lines env (before @ line # after) (cells s) = Inl IndexError"
      by (intro 2) simp_all
    with h p show ?thesis by (simp add: seed_or_restore_def)
  qed
  from 1 2 [of cs0] 3 show ?thesis by blast
qed

text \<open>
  Claim C6 as stated fails: on the mesh of three cells, the line \<open>7;3\<close> is not skipped,
  the read fails with \<open>IndexError\<close>.
\<close>

theorem restore_out_of_range_counterexample:
  "split_on CHR '';'' (''7;3'' @ [CHR 0x0A]) = [''7'', ''3'' @ [CHR 0x0A]] \<and>
   py_int ''7'' = Some 7 \<and>
   float_of_str demo_env (''3'' @ [CHR 0x0A]) = Some 3 \<and>
   length (two_triangles 1 2) = 3 \<and>
   restore_line demo_env (two_triangles 1 2) (''7;3'' @ [CHR 0x0A]) = Inl IndexError \<and>
   seed_or_restore (demo_ops 1 2) demo_env (demo_args 4 2 (Some ''other.txt''))
     \<lparr>cells = two_triangles 1 2, trace = []\<rparr> = Inl IndexError"
  by (simp add: seed_or_restore_def demo_args_def demo_env_def restore_line_def parse_simps
        two_triangles_def triangle_pair_def)

theorem restore_out_of_range_witness:
  "split_on CHR '';'' (''7;3'' @ [CHR 0x0A]) = [''7'', ''3'' @ [CHR 0x0A]] \<and>
   py_int ''7'' = Some 7 \<and>
   float_of_str demo_env (''3'' @ [CHR 0x0A]) = Some 3 \<and>
   (int (length (two_triangles 1 2)) \<le> 7 \<or> (7::int) < - int (length (two_triangles 1 2))) \<and>
   restore_lines demo_env [''1;5'' @ [CHR 0x0A]] (two_triangles 1 2) = Inr (triangle_pair 1 2 5 0) \<and>
   restore_line demo_env (two_triangles 1 2) (''7;3'' @ [CHR 0x0A]) = Inl IndexError \<and>
   restore_lines demo_env ([''1;5'' @ [CHR 0x0A]] @ (''7;3'' @ [CHR 0x0A]) # []) (two_triangles 1 2) =
     Inl IndexError \<and>
   seed_or_restore (demo_ops 1 2) demo_env (demo_args 4 2 (Some ''other.txt''))
     \<lparr>cells = two_triangles 1 2, trace = []\<rparr> = Inl IndexError"
proof -
  have 1: "split_on CHR '';'' (''7;3'' @ [CHR 0x0A]) = [''7'', ''3'' @ [CHR 0x0A]]" by simp
  have 2: "py_int ''7'' = Some 7" by (simp add: parse_simps)
  have 3: "float_of_str demo_env (''3'' @ [CHR 0x0A]) = Some 3" by (simp add: demo_env_def parse_simps)
  have 4: "int (length (two_triangles 1 2)) \<le> 7 \<or> (7::int) < - int (length (two_triangles 1 2))"
    by (simp add: two_triangles_def triangle_pair_def)
  have 5: "restore_lines demo_env [''1;5'' @ [CHR 0x0A]] (two_triangles 1 2) = Inr (triangle_pair 1 2 5 0)"
    by (simp add: demo_env_def restore_line_def parse_simps two_triangles_def triangle_pair_def)
  have 6: "restartFile (demo_args 4 2 (Some ''other.txt'')) = Some ''other.txt'' \<and> ''other.txt'' \<noteq> [] \<and>
      readlines demo_env ''other.txt'' =
        Inr ((''2'' @ [CHR 0x0A]) # [''1;5'' @ [CHR 0x0A]] @ (''7;3'' @ [CHR 0x0A]) # []) \<and>
      float_of_str demo_env (''2'' @ [CHR 0x0A]) = Some 2 \<and>
      restore_lines demo_env [''1;5'' @ [CHR 0x0A]] (cells \<lparr>cells = two_triangles 1 2, trace = []\<rparr>) =
        Inr (triangle_pair 1 2 5 0) \<and>
      length (cells \<lparr>cells = two_triangles 1 2, trace = []\<rparr>) = length (two_triangles 1 2)"
    using 5 by (simp add: demo_args_def demo_env_def parse_simps)
  from restore_out_of_range [OF 1 2 3 4, of "[''1;5'' @ [CHR 0x0A]]" "triangle_pair 1 2 5 0" "[]"
      "demo_args 4 2 (Some ''other.txt'')" "''other.txt''" "''2'' @ [CHR 0x0A]" 2
      "\<lparr>cells = two_triangles 1 2, trace = []\<rparr>" "demo_ops 1 2"] 1 2 3 4 5 6
  show ?thesis by blast
qed

section \<open>The time step\<close>

lemma round_half_even_near: "\<bar>of_int (round_half_even y) - y\<bar> \<le> 1 / 2"
proof -
  let ?f = "\<lfloor>y\<rfloor>"
  let ?d = "y - of_int ?f"
  have d0: "0 \<le> ?d" and d1: "?d < 1" by linarith+
  consider "?d < 1 / 2" | "1 / 2 < ?d" | "?d = 1 / 2" by linarith
  then show ?thesis
  proof cases
    case 1
    then have "round_half_even y = ?f" by (simp add: round_half_even_def Let_def)
    with 1 d0 show ?thesis by simp
  next
    case 2
    then have "round_half_even y = ?f + 1" by (simp add: round_half_even_def Let_def)
    with 2 d1 show ?thesis by simp
  next
    case 3
    then have "round_half_even y = ?f \<or> round_half_even y = ?f + 1"
      by (simp add: round_half_even_def Let_def)
    with 3 show ?thesis by auto
  qed
qed

lemma py_round_near: "\<bar>py_round x n - x\<bar> \<le> 1 / 2 / 10 ^ n"
proof -
  have "py_round x n - x = (of_int (round_half_even (x * 10 ^ n)) - x * 10 ^ n) / 10 ^ n"
    by (simp add: py_round_def diff_divide_distrib)
  then have "\<bar>py_round x n - x\<bar> = \<bar>of_int (round_half_even (x * 10 ^ n)) - x * 10 ^ n\<bar> / 10 ^ n"
    by simp
  also have "\<dots> \<le> 1 / 2 / 10 ^ n"
    using round_half_even_near [of "x * 10 ^ n"] by (intro divide_right_mono) simp_all
  finally show ?thesis .
qed

lemma prepare_time_step:
  assumes "prepare ops env a = Inr (s1, t0, dt)"
  shows "\<exists>t s0. seed_or_restore ops env a s0 = Inr (t, s1) \<and>
           time_step t (end_time a) (intervals a) = Inr (t0, dt)"
  using assms by (auto simp add: prepare_def bind_Inr_iff Let_def split: prod.splits)

text \<open>
  Claim C7.  With \<open>intervals\<close> not 0, \<open>dt\<close> is \<open>(end_time - start_time) / intervals\<close>
  rounded to 6 decimals: a multiple of \<open>10 ** -6\<close> within half of \<open>10 ** -6\<close> of the
  quotient.  When \<open>start_time = end_time\<close> the start time becomes 0 first, so \<open>dt\<close> is
  \<open>end_time / intervals\<close> rounded.  This is the \<open>dt\<close> the driver goes on with, computed
  from the start time that the restore or the seeding yields.
\<close>

theorem time_step_rounded:
  assumes "n \<noteq> 0"
  shows "(t0 \<noteq> t1 \<longrightarrow> time_step t0 t1 n = Inr (t0, py_round ((t1 - t0) / of_int n) 6)) \<and>
         (t0 = t1 \<longrightarrow> time_step t0 t1 n = Inr (0, py_round (t1 / of_int n) 6)) \<and>
         \<bar>py_round x 6 - x\<bar> \<le> 1 / 2 / 10 ^ 6 \<and>
         (\<exists>k :: int. py_round x 6 = of_int k / 10 ^ 6) \<and>
         (prepare ops env a = Inr (s1, t', dt) \<longrightarrow>
            (\<exists>t s0. seed_or_restore ops env a s0 = Inr (t, s1) \<and>
               time_step t (end_time a) (intervals a) = Inr (t', dt)))"
proof -
  have "\<exists>k :: int. py_round x 6 = of_int k / 10 ^ 6" by (auto simp add: py_round_def)
  with assms py_round_near [of x 6] prepare_time_step [of ops env a s1 t' dt] show ?thesis
    by (simp add: time_step_def)
qed

theorem time_step_rounded_witness:
  "(3::int) \<noteq> 0 \<and> (0::real) \<noteq> 1 \<and>
   time_step 0 1 3 = Inr (0, 333333 / 1000000) \<and>
   time_step 2 2 4 = Inr (0, 1 / 2) \<and>
   \<bar>py_round (1 / 3) 6 - 1 / 3\<bar> \<le> 1 / 2 / 10 ^ 6 \<and>
   prepare (demo_ops 1 2) demo_env (demo_args 2 2 None) =
     Inr (\<lparr>cells = two_triangles 1 2, trace = [EvCalculate 1, EvCalculate 2, EvInitialOil]\<rparr>, 0, 1) \<and>
   time_step 0 (end_time (demo_args 2 2 None)) (intervals (demo_args 2 2 None)) = Inr (0, 1)"
proof -
  have a: "py_round (1 / 3) 6 = 333333 / 1000000" "py_round (1 / 2) 6 = 1 / 2"
    by (simp_all add: py_round_def round_half_even_def Let_def)
  have p: "prepare (demo_ops 1 2) demo_env (demo_args 2 2 None) =
     Inr (\<lparr>cells = two_triangles 1 2, trace = [EvCalculate 1, EvCalculate 2, EvInitialOil]\<rparr>, 0, 1)"
    using demo_prepare [of 2 2 1 2] by (simp add: round_unit)
  have n3: "(3::int) \<noteq> 0" and n4: "(4::int) \<noteq> 0" by simp_all
  from time_step_rounded [OF n3, of 0 1 "1 / 3" "demo_ops 1 2" demo_env "demo_args 2 2 None"
      "\<lparr>cells = two_triangles 1 2, trace = [EvCalculate 1, EvCalculate 2, EvInitialOil]\<rparr>" 0 1]
    time_step_rounded [OF n4, of 2 2 0]
    a p
  show ?thesis by (auto simp add: demo_args_def time_step_def round_unit)
qed

section \<open>The restart file written at the end\<close>

lemma update_cells_kinds:
  assumes "keeps_kinds ops"
  shows "map kind (cells (update_cells ops dt s)) = map kind (cells s)"
proof -
  have k: "map kind (map commit_if_transport cs) = map kind cs" for cs
    by (induction cs) (simp_all add: commit_if_transport_def commit_cell_def)
  have "map kind (cells (update_cells ops dt s)) =
      map kind (map commit_if_transport (cells (compute_phase ops dt s)))"
    by (simp only: update_cells_def cells_commit_phase)
  also have "\<dots> = map kind (cells (compute_phase ops dt s))" by (rule k)
  also have "\<dots> = map kind (cells s)" using compute_phase_shape [OF assms, of dt s] by simp
  finally show ?thesis .
qed

lemma step_loop_kinds:
  assumes "keeps_kinds ops"
  shows "step_loop ops wfreq fl dt cia ks st = Inr st' \<Longrightarrow> map kind (cells st') = map kind (cells st)"
proof (induction ks arbitrary: st)
  case Nil
  then show ?case by simp
next
  case (Cons k ks)
  from Cons.prems obtain st1 where b: "step_body ops wfreq fl dt cia k st = Inr st1"
    and l: "step_loop ops wfreq fl dt cia ks st1 = Inr st'"
    by (auto simp add: bind_Inr_iff)
  from step_body_cells [OF b] update_cells_kinds [OF assms, of dt st] Cons.IH [OF l]
  show ?case by simp
qed

lemma step_loop_cells:
  "step_loop ops wfreq fl dt cia ks st = Inr st' \<Longrightarrow>
   cells st' = ((\<lambda>cs. cells (update_cells ops dt \<lparr>cells = cs, trace = []\<rparr>)) ^^ length ks) (cells st)"
proof (induction ks arbitrary: st)
  case Nil
  then show ?case by simp
next
  case (Cons k ks)
  from Cons.prems obtain st1 where b: "step_body ops wfreq fl dt cia k st = Inr st1"
    and l: "step_loop ops wfreq fl dt cia ks st1 = Inr st'"
    by (auto simp add: bind_Inr_iff)
  have c: "cells st1 = cells (update_cells ops dt \<lparr>cells = cells st, trace = []\<rparr>)"
    using step_body_cells [OF b] update_cells_cells_cong [of st "\<lparr>cells = cells st, trace = []\<rparr>" ops dt]
    by simp
  from Cons.IH [OF l] c show ?case by (simp add: funpow_Suc_right del: funpow.simps)
qed

lemma find_and_plot_final:
  assumes r: "find_and_plot ops env a = Inr r" and p: "prepare ops env a = Inr (s1, t0, dt)"
  shows "final_cells r =
           ((\<lambda>cs. cells (update_cells ops dt \<lparr>cells = cs, trace = []\<rparr>)) ^^ nat (intervals a)) (cells s1)"
    and "keeps_kinds ops \<Longrightarrow> map kind (final_cells r) = map kind (cells s1)"
    and "restart_written r = restart_text env (end_time a) (final_cells r)"
    and "EvWriteRestart \<in> set (events r)"
proof -
  from r p obtain st where s: "stepping ops a (s1, t0, dt) = Inr st" and f: "finish env a st = Inr r"
    by (auto simp add: find_and_plot_def bind_Inr_iff)
  let ?st0 = "\<lparr>cells = cells s1, trace = trace s1 @ [EvCellsWithinArea],
                current_time = t0, oil_area_time = []\<rparr>"
  from s have l: "step_loop ops (write_frequency a) (fast a) dt (area_of_interest ops a (cells s1))
      [0..<nat (intervals a)] ?st0 = Inr st"
    by (simp add: stepping_def Let_def)
  from step_loop_cells [OF l] finish_Inr(3) [OF f]
  show "final_cells r =
           ((\<lambda>cs. cells (update_cells ops dt \<lparr>cells = cs, trace = []\<rparr>)) ^^ nat (intervals a)) (cells s1)"
    by simp
  show "map kind (final_cells r) = map kind (cells s1)" if "keeps_kinds ops"
    using step_loop_kinds [OF that l] finish_Inr(3) [OF f] by simp
  show "restart_written r = restart_text env (end_time a) (final_cells r)"
    using finish_Inr(3,4) [OF f] by simp
  show "EvWriteRestart \<in> set (events r)" using finish_Inr(5) [OF f] by simp
qed

text \<open>
  Claim C8.  A run of \<open>find_and_plot\<close> that returns has written the restart file: its
  first line is \<open>end_time\<close>, and line \<open>j + 1\<close> is \<open><index>;<oil_amount>\<close> of the cell at
  position \<open>j\<close> of the mesh, for every cell in mesh order and nothing else.  The cells
  written are those after the last step; under \<open>keeps_kinds\<close> they are the cells of the
  loaded mesh, vertices and lines included.
\<close>

theorem restart_snapshot:
  assumes "find_and_plot ops env a = Inr r"
  shows "\<exists>s1 t0 dt.
           prepare ops env a = Inr (s1, t0, dt) \<and>
           final_cells r =
             ((\<lambda>cs. cells (update_cells ops dt \<lparr>cells = cs, trace = []\<rparr>)) ^^ nat (intervals a)) (cells s1) \<and>
           (keeps_kinds ops \<longrightarrow> map kind (final_cells r) = map kind (cells s1)) \<and>
           EvWriteRestart \<in> set (events r) \<and>
           length (restart_written r) = Suc (length (final_cells r)) \<and>
           restart_written r ! 0 = str_of_float env (end_time a) @ [CHR 0x0A] \<and>
           (\<forall>j < length (final_cells r).
              restart_written r ! Suc j =
                show_int (index (final_cells r ! j)) @ '';'' @
                str_of_float env (oil_amount (final_cells r ! j)) @ [CHR 0x0A])"
proof -
  from assms obtain s1 t0 dt st where p: "prepare ops env a = Inr (s1, t0, dt)"
    by (rule find_and_plot_Inr)
  note f = find_and_plot_final [OF assms p]
  have "length (restart_written r) = Suc (length (final_cells r))"
    and "restart_written r ! 0 = str_of_float env (end_time a) @ [CHR 0x0A]"
    and "\<forall>j < length (final_cells r).
              restart_written r ! Suc j =
                show_int (index (final_cells r ! j)) @ '';'' @
                str_of_float env (oil_amount (final_cells r ! j)) @ [CHR 0x0A]"
    by (simp_all add: f(3) restart_text_def)
  with p f(1,2,4) show ?thesis by blast
qed

lemma demo_prepare_restart:
  "prepare (demo_ops a b) demo_env (demo_args 4 2 (Some ''restart.txt'')) =
     Inr (\<lparr>cells = triangle_pair a b 5 3,
            trace = [EvCalculate 1, EvCalculate 2, EvReadRestart ''restart.txt'']\<rparr>, 2, 1)"
proof -
  have "for_transport (call_calculate (demo_ops a b)) [0..<length (two_triangles a b)]
      \<lparr>cells = two_triangles a b, trace = []\<rparr> =
      \<lparr>cells = two_triangles a b, trace = [EvCalculate 1, EvCalculate 2]\<rparr>"
    by (simp add: demo_ops_def two_triangles_def triangle_pair_def for_transport_def
          call_calculate_def transport_capable_def upt_rec)
  moreover have "Mesh (demo_ops a b) (mesh_path (demo_args 4 2 (Some ''restart.txt''))) =
      Inr (two_triangles a b)"
    by (simp add: demo_ops_def)
  moreover have "time_step 2 (end_time (demo_args 4 2 (Some ''restart.txt'')))
      (intervals (demo_args 4 2 (Some ''restart.txt''))) = Inr (2, 1)"
    by (simp add: demo_args_def time_step_def round_unit)
  ultimately show ?thesis
    by (simp add: prepare_def demo_restore)
qed

theorem restart_snapshot_witness:
  "\<exists>r. find_and_plot (demo_ops 1 1) demo_env (demo_args 4 2 (Some ''restart.txt'')) = Inr r \<and>
        keeps_kinds (demo_ops 1 1) \<and>
        map kind (final_cells r) = [Vertex, Triangle, Triangle] \<and>
        final_cells r = triangle_pair 1 1 5 3 \<and>
        restart_written r =
          [''4.0'' @ [CHR 0x0A], ''0;0.0'' @ [CHR 0x0A], ''1;5.0'' @ [CHR 0x0A], ''2;3.0'' @ [CHR 0x0A]]"
proof -
  let ?a = "demo_args 4 2 (Some ''restart.txt'')"
  note p = demo_prepare_restart [of 1 1]
  have "write_frequency ?a \<noteq> 0" and "0 < intervals ?a" by (simp_all add: demo_args_def)
  from find_and_plot_total [OF p this] obtain r where
    r: "find_and_plot (demo_ops 1 1) demo_env ?a = Inr r" by blast
  have n: "nat (intervals ?a) = Suc (Suc 0)" by (simp add: demo_args_def)
  have e: "end_time ?a = 4" by (simp add: demo_args_def)
  have kk: "keeps_kinds (demo_ops 1 1)"
    by (rule keeps_kinds_spec [where change = "flux_change difference_flux"]) (simp add: demo_ops_def)
  from restart_snapshot [OF r] p kk obtain
    c: "final_cells r = ((\<lambda>cs. cells (update_cells (demo_ops 1 1) 1 \<lparr>cells = cs, trace = []\<rparr>)) ^^
          Suc (Suc 0)) (triangle_pair 1 1 5 3)"
    and k: "map kind (final_cells r) = map kind (triangle_pair 1 1 5 3)"
    and l: "length (restart_written r) = Suc (length (final_cells r))"
    and h: "restart_written r ! 0 = str_of_float demo_env 4 @ [CHR 0x0A]"
    and t: "\<forall>j < length (final_cells r).
              restart_written r ! Suc j =
                show_int (index (final_cells r ! j)) @ '';'' @
                str_of_float demo_env (oil_amount (final_cells r ! j)) @ [CHR 0x0A]"
    by (auto simp add: n e)
  from c have c': "final_cells r = triangle_pair 1 1 5 3"
    by (simp add: demo_update)
  have "restart_written r =
          [''4.0'' @ [CHR 0x0A], ''0;0.0'' @ [CHR 0x0A], ''1;5.0'' @ [CHR 0x0A], ''2;3.0'' @ [CHR 0x0A]]"
  proof (rule nth_equalityI)
    show "length (restart_written r) = length [''4.0'' @ [CHR 0x0A], ''0;0.0'' @ [CHR 0x0A],
        ''1;5.0'' @ [CHR 0x0A], ''2;3.0'' @ [CHR 0x0A]]"
      using l c' by (simp add: triangle_pair_def)
  next
    fix i assume "i < length (restart_written r)"
    with l c' have "i = 0 \<or> i = Suc 0 \<or> i = Suc (Suc 0) \<or> i = Suc (Suc (Suc 0))"
      by (auto simp add: triangle_pair_def)
    moreover from t [rule_format, of 0] c' have "restart_written r ! Suc 0 = ''0;0.0'' @ [CHR 0x0A]"
      by (simp add: triangle_pair_def demo_env_def show_int_def show_nat.simps)
    moreover from t [rule_format, of "Suc 0"] c'
    have "restart_written r ! Suc (Suc 0) = ''1;5.0'' @ [CHR 0x0A]"
      by (simp add: triangle_pair_def demo_env_def show_int_def show_nat.simps)
    moreover from t [rule_format, of "Suc (Suc 0)"] c'
    have "restart_written r ! Suc (Suc (Suc 0)) = ''2;3.0'' @ [CHR 0x0A]"
      by (simp add: triangle_pair_def demo_env_def show_int_def show_nat.simps)
    moreover have "restart_written r ! 0 = ''4.0'' @ [CHR 0x0A]"
      using h by (simp add: demo_env_def show_int_def show_nat.simps)
    ultimately show "restart_written r ! i = [''4.0'' @ [CHR 0x0A], ''0;0.0'' @ [CHR 0x0A],
        ''1;5.0'' @ [CHR 0x0A], ''2;3.0'' @ [CHR 0x0A]] ! i"
      by auto
  qed
  moreover from k have "map kind (final_cells r) = [Vertex, Triangle, Triangle]"
    by (simp add: triangle_pair_def)
  ultimately show ?thesis using r c' kk by (intro exI [of _ r]) simp
qed

section \<open>Reading the configuration\<close>











lemma fetch_demo:
  assumes "map_of io ''writeFrequency'' = Some v1" and "map_of io ''restartFile'' = Some v2"
    and "map_of io ''logName'' = Some v3"
  shows "fetch (demo_world (demo_doc g st io)) ''input.toml'' =
     Inr \<lparr>config = TTable (demo_doc g st io),
          fish_area = map_of g ''fish_area'',
          start_point_given = map_of g ''initial_oil_area'',
          filepath = map_of g ''filepath'',
          steps = map_of st ''nSteps'',
          t_start_given = (case map_of st ''t_start'' of None \<Rightarrow> Some (TInt 0) | Some v \<Rightarrow> Some v),
          t_end_given = map_of st ''t_end'',
          writeFrequency_given = v1, restartFile_given = v2, logName_given = v3\<rparr>"
  using assms by (simp add: fetch_def demo_world_def demo_doc_def split: option.split)

lemma fetch_demo_io:
  "fetch (demo_world (demo_doc g st (demo_io restart))) ''input.toml'' =
     Inr \<lparr>config = TTable (demo_doc g st (demo_io restart)),
          fish_area = map_of g ''fish_area'',
          start_point_given = map_of g ''initial_oil_area'',
          filepath = map_of g ''filepath'',
          steps = map_of st ''nSteps'',
          t_start_given = (case map_of st ''t_start'' of None \<Rightarrow> Some (TInt 0) | Some v \<Rightarrow> Some v),
          t_end_given = map_of st ''t_end'',
          writeFrequency_given = TInt 0, restartFile_given = TStr restart, logName_given = TStr []\<rparr>"
  by (rule fetch_demo) (simp_all add: demo_io_def)

lemma demo_world_paths: "path_exists (demo_world doc) p \<longleftrightarrow> p = ''input.toml'' \<or> p = ''mesh.msh''"
  by (simp add: demo_world_def)




lemma fetch_Inr:
  assumes "fetch w name = Inr f"
  shows "\<exists>doc io settings.
           toml_load w name = Inr doc \<and> config f = TTable doc \<and>
           py_item (config f) ''IO'' = Inr io \<and>
           py_item io ''writeFrequency'' = Inr (writeFrequency_given f) \<and>
           py_item io ''restartFile'' = Inr (restartFile_given f) \<and>
           py_item io ''logName'' = Inr (logName_given f) \<and>
           py_item (config f) ''settings'' = Inr settings \<and>
           py_get settings ''t_start'' (Some (TInt 0)) = Inr (t_start_given f)"
proof -
  from assms have e: "path_exists w name" by (auto simp add: fetch_def split: if_splits)
  with assms obtain doc where d: "toml_load w name = Inr doc"
    by (auto simp add: fetch_def bind_Inr_iff)
  from assms e d obtain geometry v_fish_area v_start_point v_filepath settings where
    s: "py_item (TTable doc) ''settings'' = Inr settings"
    and r1: "bind (py_get settings ''nSteps'' None) (\<lambda>v_steps.
        bind (py_get settings ''t_start'' (Some (TInt 0))) (\<lambda>v_t_start.
        bind (py_get settings ''t_end'' None) (\<lambda>v_t_end.
        bind (py_item (TTable doc) ''IO'') (\<lambda>IO.
        bind (py_item IO ''writeFrequency'') (\<lambda>v_writeFrequency.
        bind (py_item IO ''restartFile'') (\<lambda>v_restartFile.
        bind (py_item IO ''logName'') (\<lambda>v_logName.
          Inr \<lparr>config = TTable doc, fish_area = v_fish_area, start_point_given = v_start_point,
               filepath = v_filepath, steps = v_steps, t_start_given = v_t_start, t_end_given = v_t_end,
               writeFrequency_given = v_writeFrequency, restartFile_given = v_restartFile,
               logName_given = v_logName\<rparr>))))))) = Inr f"
    unfolding fetch_def by (simp add: bind_Inr_iff) blast
  from r1 obtain v_steps v_t_start v_t_end io v1 v2 v3 where
    t: "py_get settings ''t_start'' (Some (TInt 0)) = Inr v_t_start"
    and i: "py_item (TTable doc) ''IO'' = Inr io"
    and k: "py_item io ''writeFrequency'' = Inr v1" "py_item io ''restartFile'' = Inr v2"
      "py_item io ''logName'' = Inr v3"
    and f: "f = \<lparr>config = TTable doc, fish_area = v_fish_area, start_point_given = v_start_point,
               filepath = v_filepath, steps = v_steps, t_start_given = v_t_start, t_end_given = v_t_end,
               writeFrequency_given = v1, restartFile_given = v2, logName_given = v3\<rparr>"
    by (simp add: bind_Inr_iff) blast
  from d s t i k f show ?thesis by simp
qed

lemma validate_Inr:
  assumes "validate w f = Inr (c, locals)"
  shows "c = config f"
    and "writeFrequency locals =
           (if truthy (Some (writeFrequency_given f)) then writeFrequency_given f else TInt (- 1000))"
    and "t_start locals = (if truthy (Some (restartFile_given f)) then t_start_given f else Some (TInt 0))"
    and "logName locals =
           (if truthy (Some (logName_given f)) then logName_given f else TStr ''logfile.log'')"
proof -
  from assms have "c = config f \<and>
      locals = \<lparr>writeFrequency =
               (if \<not> truthy (Some (writeFrequency_given f)) then TInt (- 1000)
                else writeFrequency_given f),
             t_start = (if \<not> truthy (Some (restartFile_given f)) then Some (TInt 0) else t_start_given f),
             logName =
               (if \<not> truthy (Some (logName_given f)) then TStr ''logfile.log''
                else logName_given f)\<rparr>"
    unfolding validate_def by (auto simp add: bind_Inr_iff split: if_splits)
  then show "c = config f"
    and "writeFrequency locals =
           (if truthy (Some (writeFrequency_given f)) then writeFrequency_given f else TInt (- 1000))"
    and "t_start locals = (if truthy (Some (restartFile_given f)) then t_start_given f else Some (TInt 0))"
    and "logName locals =
           (if truthy (Some (logName_given f)) then logName_given f else TStr ''logfile.log'')"
    by simp_all
qed

text \<open>
  Claim C10.  What \<open>readConfig\<close> returns is the parsed document itself.  The defaults of
  lines 61-68 reach only the local variables: when the run ends with the locals
  \<open>writeFrequency = -1000\<close>, \<open>t_start = 0\<close> or \<open>logName = "logfile.log"\<close>, the returned
  document still answers the look-ups \<open>IO.writeFrequency\<close>, \<open>IO.restartFile\<close>,
  \<open>IO.logName\<close> and \<open>settings.t_start\<close> with the values of the file (or the absence of
  \<open>t_start\<close>).
\<close>

theorem config_returned_unchanged:
  "(readConfig w name = Inr c \<longrightarrow> (\<exists>doc. toml_load w name = Inr doc \<and> c = TTable doc)) \<and>
   (readConfig_run w name = Inr (c, locals) \<longrightarrow>
      readConfig w name = Inr c \<and>
      (\<exists>doc io settings given_start wf_given rf_given ln_given.
         toml_load w name = Inr doc \<and> c = TTable doc \<and>
         py_item c ''IO'' = Inr io \<and>
         py_item io ''writeFrequency'' = Inr wf_given \<and>
         py_item io ''restartFile'' = Inr rf_given \<and>
         py_item io ''logName'' = Inr ln_given \<and>
         py_item c ''settings'' = Inr settings \<and>
         py_get settings ''t_start'' (Some (TInt 0)) = Inr given_start \<and>
         writeFrequency locals = (if truthy (Some wf_given) then wf_given else TInt (- 1000)) \<and>
         t_start locals = (if truthy (Some rf_given) then given_start else Some (TInt 0)) \<and>
         logName locals = (if truthy (Some ln_given) then ln_given else TStr ''logfile.log'')))"
proof (intro conjI impI)
  assume "readConfig w name = Inr c"
  then obtain f locals where f: "fetch w name = Inr f" and v: "validate w f = Inr (c, locals)"
    by (auto simp add: readConfig_def readConfig_run_def bind_Inr_iff)
  from fetch_Inr [OF f] validate_Inr(1) [OF v]
  show "\<exists>doc. toml_load w name = Inr doc \<and> c = TTable doc" by auto
next
  assume a: "readConfig_run w name = Inr (c, locals)"
  then show "readConfig w name = Inr c" by (simp add: readConfig_def)
  from a obtain f where f: "fetch w name = Inr f" and v: "validate w f = Inr (c, locals)"
    by (auto simp add: readConfig_run_def bind_Inr_iff)
  from fetch_Inr [OF f] obtain doc io settings where
    F: "toml_load w name = Inr doc" "config f = TTable doc"
      "py_item (config f) ''IO'' = Inr io"
      "py_item io ''writeFrequency'' = Inr (writeFrequency_given f)"
      "py_item io ''restartFile'' = Inr (restartFile_given f)"
      "py_item io ''logName'' = Inr (logName_given f)"
      "py_item (config f) ''settings'' = Inr settings"
      "py_get settings ''t_start'' (Some (TInt 0)) = Inr (t_start_given f)"
    by blast
  note V = validate_Inr [OF v]
  have "toml_load w name = Inr doc \<and> c = TTable doc \<and>
         py_item c ''IO'' = Inr io \<and>
         py_item io ''writeFrequency'' = Inr (writeFrequency_given f) \<and>
         py_item io ''restartFile'' = Inr (restartFile_given f) \<and>
         py_item io ''logName'' = Inr (logName_given f) \<and>
         py_item c ''settings'' = Inr settings \<and>
         py_get settings ''t_start'' (Some (TInt 0)) = Inr (t_start_given f) \<and>
         writeFrequency locals =
           (if truthy (Some (writeFrequency_given f)) then writeFrequency_given f else TInt (- 1000)) \<and>
         t_start locals =
           (if truthy (Some (restartFile_given f)) then t_start_given f else Some (TInt 0)) \<and>
         logName locals =
           (if truthy (Some (logName_given f)) then logName_given f else TStr ''logfile.log'')"
    using F V(2,3,4) by (simp only: V(1) simp_thms)
  then show "\<exists>doc io settings given_start wf_given rf_given ln_given.
         toml_load w name = Inr doc \<and> c = TTable doc \<and>
         py_item c ''IO'' = Inr io \<and>
         py_item io ''writeFrequency'' = Inr wf_given \<and>
         py_item io ''restartFile'' = Inr rf_given \<and>
         py_item io ''logName'' = Inr ln_given \<and>
         py_item c ''settings'' = Inr settings \<and>
         py_get settings ''t_start'' (Some (TInt 0)) = Inr given_start \<and>
         writeFrequency locals = (if truthy (Some wf_given) then wf_given else TInt (- 1000)) \<and>
         t_start locals = (if truthy (Some rf_given) then given_start else Some (TInt 0)) \<and>
         logName locals = (if truthy (Some ln_given) then ln_given else TStr ''logfile.log'')"
    by (intro exI)
qed

theorem config_returned_unchanged_witness:
  "readConfig_run (demo_world (demo_doc demo_geometry (demo_settings 10 5 9) (demo_io []))) ''input.toml'' =
     Inr (TTable (demo_doc demo_geometry (demo_settings 10 5 9) (demo_io [])),
          \<lparr>writeFrequency = TInt (- 1000), t_start = Some (TInt 0), logName = TStr ''logfile.log''\<rparr>) \<and>
   readConfig (demo_world (demo_doc demo_geometry (demo_settings 10 5 9) (demo_io []))) ''input.toml'' =
     Inr (TTable (demo_doc demo_geometry (demo_settings 10 5 9) (demo_io []))) \<and>
   py_item (TTable (demo_doc demo_geometry (demo_settings 10 5 9) (demo_io []))) ''IO'' =
     Inr (TTable (demo_io [])) \<and>
   py_item (TTable (demo_io [])) ''writeFrequency'' = Inr (TInt 0) \<and>
   py_item (TTable (demo_io [])) ''logName'' = Inr (TStr []) \<and>
   py_item (TTable (demo_doc demo_geometry (demo_settings 10 5 9) (demo_io []))) ''settings'' =
     Inr (TTable (demo_settings 10 5 9)) \<and>
   py_get (TTable (demo_settings 10 5 9)) ''t_start'' (Some (TInt 0)) = Inr (Some (TInt 5))"
proof -
  let ?w = "demo_world (demo_doc demo_geometry (demo_settings 10 5 9) (demo_io []))"
  let ?c = "TTable (demo_doc demo_geometry (demo_settings 10 5 9) (demo_io []))"
  let ?l = "\<lparr>writeFrequency = TInt (- 1000), t_start = Some (TInt 0), logName = TStr ''logfile.log''\<rparr>"
  have run: "readConfig_run ?w ''input.toml'' = Inr (?c, ?l)"
    by (simp add: readConfig_run_def fetch_demo_io validate_def mesh_file_found_def
          steps_not_positive_def end_not_after_start_def py_le_def demo_geometry_def
          demo_settings_def demo_world_paths)
  have items: "py_item ?c ''IO'' = Inr (TTable (demo_io []))"
    "py_item (TTable (demo_io [])) ''writeFrequency'' = Inr (TInt 0)"
    "py_item (TTable (demo_io [])) ''logName'' = Inr (TStr [])"
    "py_item ?c ''settings'' = Inr (TTable (demo_settings 10 5 9))"
    "py_get (TTable (demo_settings 10 5 9)) ''t_start'' (Some (TInt 0)) = Inr (Some (TInt 5))"
    by (simp_all add: demo_doc_def demo_io_def demo_settings_def)
  from config_returned_unchanged [of ?w "''input.toml''" ?c ?l] run
  have "readConfig ?w ''input.toml'' = Inr ?c" by blast
  with run items show ?thesis by blast
qed

end
